theory Spec2Isabelle
  imports Main "HOL-Library.AList"
begin

section \<open>Data model (idl_parser.h)\<close>

text \<open>
  \<^verbatim>\<open>hash_t\<close> and \<^verbatim>\<open>getHash\<close> are declared in \<^verbatim>\<open>common.h\<close>, which is not part of
  the sources at hand. The parser only compares hashes for equality and initialises them
  with the literal 0, so a hash is a natural number here and the hash function is a
  parameter \<open>H\<close> of every operation that hashes a name.
\<close>

type_synonym hash_t = nat

text \<open>The enumeration \<^verbatim>\<open>TypeAndCommande_e\<close>.\<close>

abbreviation ID_SEQUENCE :: nat where "ID_SEQUENCE \<equiv> 20"
abbreviation LAST_TYPE :: nat where "LAST_TYPE \<equiv> 22"
abbreviation BASE_START :: nat where "BASE_START \<equiv> 22"
abbreviation ID_STRUCT :: nat where "ID_STRUCT \<equiv> 22"
abbreviation ID_MODULE :: nat where "ID_MODULE \<equiv> 23"
abbreviation ID_TYPEDEF :: nat where "ID_TYPEDEF \<equiv> 24"
abbreviation LAST_BASE :: nat where "LAST_BASE \<equiv> 25"
abbreviation TYPE_SPACER :: int where "TYPE_SPACER \<equiv> 1024"
abbreviation BASE_SPACER :: int where "BASE_SPACER \<equiv> 4096"
abbreviation USER_BASE_SPACER_TYPEDEF :: int where "USER_BASE_SPACER_TYPEDEF \<equiv> 8192"
abbreviation USER_BASE_SPACER_STRUCT :: int where "USER_BASE_SPACER_STRUCT \<equiv> 16384"

record Enum_t =
  e_hash :: hash_t
  e_type :: int
  e_name :: string
  e_nameSpace :: string
  e_body :: string

record Typedef_t =
  td_hash :: hash_t
  td_type :: int
  td_name :: string
  td_baseName :: string
  td_nameSpace :: string
  td_size :: int

record Module_t =
  m_hash :: hash_t
  m_type :: int
  m_name :: string
  m_body :: string

record Variable_t =
  v_hash :: hash_t
  v_type :: Typedef_t
  v_is_key :: bool
  v_name :: string
  v_struct_name :: string
  v_fromNamespace :: string

record Struct_t =
  s_hash :: hash_t
  s_type :: int
  s_name :: string
  s_nameSpace :: string
  s_fields :: "Variable_t list"

record UDefine_t =
  ud_line :: string

text \<open>The default constructor \<^verbatim>\<open>Typedef_t()\<close>: everything zero or empty, size \<open>-1\<close>.\<close>

definition Typedef_t_init :: Typedef_t where
  "Typedef_t_init =
     \<lparr>td_hash = 0, td_type = 0, td_name = [], td_baseName = [], td_nameSpace = [],
      td_size = - 1\<rparr>"

text \<open>
  The members of \<^verbatim>\<open>class Parser\<close>, and those \<^verbatim>\<open>class IdlParser\<close> adds. The
  \<^verbatim>\<open>std::map\<close> of defines is an association list read with \<^const>\<open>map_of\<close> and
  written with \<^const>\<open>AList.update\<close> and \<^const>\<open>AList.delete\<close>: keys stay unique and the
  parser only ever looks a key up.
\<close>

record Parser =
  enums :: "Enum_t list"
  typedefs :: "Typedef_t list"
  structs :: "Struct_t list"
  variables :: "Variable_t list"
  modules :: "Module_t list"
  udefines :: "UDefine_t list"
  nameSpace :: string

record IdlParser = Parser +
  code :: string
  defines_map :: "(string \<times> string) list"
  extensions :: "(string \<times> string) list"
  line :: string
  linearize :: int
  generate_comment :: int

text \<open>The constructors \<^verbatim>\<open>Parser()\<close> and \<^verbatim>\<open>IdlParser()\<close>.\<close>

definition IdlParser_init :: IdlParser where
  "IdlParser_init =
     \<lparr>enums = [], typedefs = [], structs = [], variables = [], modules = [], udefines = [],
      nameSpace = [], code = [], defines_map = [], extensions = [], line = [], linearize = 0,
      generate_comment = 1\<rparr>"

text \<open>
  What the C++ does where it has no defined result. \<^verbatim>\<open>error\<close> is \<^verbatim>\<open>printf\<close> and the
  \<^verbatim>\<open>TRACE_\<close> macros print to \<^verbatim>\<open>std::cout\<close>, so a diagnostic alone stops nothing; a
  fault is recorded only where execution goes on into an out-of-bounds access, a read of an
  uninitialised variable, a use of released memory, or a failed \<^verbatim>\<open>assert\<close>.
  \<open>NoReturn\<close> stands for a call that never returns, and \<open>FuelExhausted\<close> for an
  include nested deeper than the bound that the model of \<^verbatim>\<open>#include\<close> is given.
\<close>

datatype fault =
  BufferOverflow | OutOfRange | Uninitialised | UseAfterFree | AssertFailed | NoReturn
  | FuelExhausted

section \<open>Session teardown (idl_parser.h)\<close>






section \<open>The type registry (idl_parser.cxx)\<close>

text \<open>The names of \<^verbatim>\<open>__internal_hash\<close>, in order; entry \<open>i\<close> has id \<open>i\<close> and hash \<open>H name\<close>.\<close>

definition internal_names :: "string list" where
  "internal_names =
     [''void'', ''octet'', ''int8_t'', ''int16_t'', ''short'', ''int32_t'', ''int'', ''long'',
      ''int64_t'', ''long long'', ''uint8_t'', ''uint16_t'', ''uint32_t'', ''uint64_t'',
      ''bool'', ''boolean'', ''char'', ''float'', ''string'', ''double'', ''sequence'',
      ''const'', ''struct'', ''module'', ''typedef'']"

text \<open>
  Every lookup loop of the registry is a linear search for the first index in \<open>[lo, hi)\<close>
  whose entry satisfies the test.
\<close>

fun first_index :: "('a \<Rightarrow> bool) \<Rightarrow> 'a list \<Rightarrow> nat \<Rightarrow> nat option" where
  "first_index p [] i = None"
| "first_index p (x # xs) i = (if p x then Some i else first_index p xs (Suc i))"

text \<open>
  The \<^verbatim>\<open>is_\<close> functions return a flag and write the out-parameter \<^verbatim>\<open>result\<close>:
  \<open>Some r\<close> is flag 1 with \<open>result = r\<close>, \<open>None\<close> is flag 0 with \<open>result = -1\<close>.
\<close>

definition is_builtin_type :: "(string \<Rightarrow> hash_t) \<Rightarrow> hash_t \<Rightarrow> int option" where
  "is_builtin_type H h =
     map_option (\<lambda>i. int i + TYPE_SPACER)
       (first_index (\<lambda>n. h = H n) (take LAST_TYPE internal_names) 0)"

definition is_builtin_base :: "(string \<Rightarrow> hash_t) \<Rightarrow> hash_t \<Rightarrow> int option" where
  "is_builtin_base H h =
     map_option (\<lambda>i. int i + BASE_SPACER)
       (first_index (\<lambda>n. h = H n) (drop BASE_START (take LAST_BASE internal_names)) BASE_START)"

definition is_struct :: "'a Parser_scheme \<Rightarrow> hash_t \<Rightarrow> int option" where
  "is_struct P h =
     map_option (\<lambda>i. int i + USER_BASE_SPACER_STRUCT)
       (first_index (\<lambda>s. s_hash s = h) (structs P) 0)"

definition is_typedef :: "'a Parser_scheme \<Rightarrow> hash_t \<Rightarrow> int option" where
  "is_typedef P h =
     map_option (\<lambda>i. int i + USER_BASE_SPACER_TYPEDEF)
       (first_index (\<lambda>t. td_hash t = h) (typedefs P) 0)"

definition is_user_base :: "'a Parser_scheme \<Rightarrow> hash_t \<Rightarrow> int option" where
  "is_user_base P h =
     (case is_typedef P h of Some r \<Rightarrow> Some r | None \<Rightarrow> is_struct P h)"

definition getType :: "(string \<Rightarrow> hash_t) \<Rightarrow> 'a Parser_scheme \<Rightarrow> hash_t \<Rightarrow> int" where
  "getType H P h =
     (case is_builtin_type H h of Some r \<Rightarrow> r
      | None \<Rightarrow>
        (case is_builtin_base H h of Some r \<Rightarrow> r
         | None \<Rightarrow> (case is_user_base P h of Some r \<Rightarrow> r | None \<Rightarrow> - 1)))"

text \<open>\<^verbatim>\<open>getBase\<close> asserts that the hash is a base keyword.\<close>

definition getBase :: "(string \<Rightarrow> hash_t) \<Rightarrow> hash_t \<Rightarrow> fault + int" where
  "getBase H h = (case is_builtin_base H h of Some r \<Rightarrow> Inr r | None \<Rightarrow> Inl AssertFailed)"

text \<open>
  \<^verbatim>\<open>getRealType\<close> calls itself on the base name of a typedef, and a typedef whose base
  name hashes back to itself (\<^verbatim>\<open>typedef sequence<X> X;\<close>) makes the recursion endless, so
  the result is an option and \<open>None\<close> is the call that never returns.
\<close>

partial_function (option) getRealType ::
  "(string \<Rightarrow> hash_t) \<Rightarrow> 'a Parser_scheme \<Rightarrow> hash_t \<Rightarrow> Typedef_t option" where
  "getRealType H P h =
     (case first_index (\<lambda>n. h = H n) (take LAST_TYPE internal_names) 0 of
        Some i \<Rightarrow>
          Some (Typedef_t_init\<lparr>td_hash := h, td_name := internal_names ! i,
                  td_type := int i + TYPE_SPACER\<rparr>)
      | None \<Rightarrow>
         (case find (\<lambda>t. td_hash t = h) (typedefs P) of
            Some t \<Rightarrow>
              if td_baseName t \<noteq> [] then
                Option.bind (getRealType H P (H (td_baseName t)))
                  (\<lambda>r. Some (r\<lparr>td_type := td_type t, td_size := td_size t\<rparr>))
              else Some t
          | None \<Rightarrow>
             (case find (\<lambda>s. s_hash s = h) (structs P) of
                Some s \<Rightarrow>
                  Some (Typedef_t_init\<lparr>td_hash := h, td_name := s_name s,
                          td_nameSpace := nameSpace P, td_baseName := s_name s,
                          td_type := int ID_STRUCT + USER_BASE_SPACER_STRUCT\<rparr>)
              | None \<Rightarrow> Some Typedef_t_init)))"

section \<open>Strings (str.h, libc)\<close>

abbreviation NUL :: char where "NUL \<equiv> CHR 0x00"
abbreviation TAB :: char where "TAB \<equiv> CHR 0x09"
abbreviation NL :: char where "NL \<equiv> CHR 0x0A"
abbreviation CR :: char where "CR \<equiv> CHR 0x0D"
abbreviation DQ :: char where "DQ \<equiv> CHR 0x22"
abbreviation SQ :: char where "SQ \<equiv> CHR 0x27"
abbreviation BSL :: char where "BSL \<equiv> CHR 0x5C"

text \<open>\<^verbatim>\<open>isalpha\<close> and \<^verbatim>\<open>isdigit\<close> of the C locale.\<close>

definition isalpha :: "char \<Rightarrow> bool" where
  "isalpha c =
     (let n = (of_char c :: nat) in (65 \<le> n \<and> n \<le> 90) \<or> (97 \<le> n \<and> n \<le> 122))"

definition isdigit :: "char \<Rightarrow> bool" where
  "isdigit c = (let n = (of_char c :: nat) in 48 \<le> n \<and> n \<le> 57)"

text \<open>
  Modelled from the spec: \<^verbatim>\<open>Explode\<close> of \<^verbatim>\<open>str.h\<close>, which is not part of the
  sources at hand. The spec has a statement "split on single spaces into tokens", and the
  comment in \<^verbatim>\<open>remove_namespace\<close> shows \<^verbatim>\<open>::name1::name2\<close> giving
  \<^verbatim>\<open>0: name1 1: name2\<close>: the pieces between separators, in order, without the empty ones.
\<close>

fun Explode_aux :: "char \<Rightarrow> string \<Rightarrow> string \<Rightarrow> string list" where
  "Explode_aux sep cur [] = (if cur = [] then [] else [cur])"
| "Explode_aux sep cur (c # cs) =
     (if c = sep then (if cur = [] then [] else [cur]) @ Explode_aux sep [] cs
      else Explode_aux sep (cur @ [c]) cs)"

definition Explode :: "string \<Rightarrow> char \<Rightarrow> string list" where
  "Explode s sep = Explode_aux sep [] s"

text \<open>
  Modelled from the spec: \<^verbatim>\<open>String::replace\<close> of \<^verbatim>\<open>str.h\<close>; every occurrence of
  the pattern, left to right and without overlap, is replaced (the spec: commas are
  "normalized to remove following whitespace").
\<close>

fun replace_all :: "string \<Rightarrow> string \<Rightarrow> string \<Rightarrow> string" where
  "replace_all pat rep [] = []"
| "replace_all pat rep (c # cs) =
     (if pat \<noteq> [] \<and> take (length pat) (c # cs) = pat
      then rep @ replace_all pat rep (drop (length pat - 1) cs)
      else c # replace_all pat rep cs)"

text \<open>
  Modelled from the spec: \<^verbatim>\<open>String::basename\<close> of \<^verbatim>\<open>str.h\<close>, the part of a path
  after its last \<^verbatim>\<open>/\<close>.
\<close>

definition basename :: "string \<Rightarrow> string" where
  "basename s = rev (takeWhile (\<lambda>c. c \<noteq> CHR ''/'') (rev s))"

text \<open>\<^verbatim>\<open>String::find(pat) != npos\<close>.\<close>

fun contains :: "string \<Rightarrow> string \<Rightarrow> bool" where
  "contains pat [] = (pat = [])"
| "contains pat (c # cs) = (take (length pat) (c # cs) = pat \<or> contains pat cs)"

text \<open>
  \<^verbatim>\<open>atol\<close> of the C library: white space, an optional sign, then decimal digits as far as
  they go. The result is a \<^verbatim>\<open>long\<close>, taken to have 64 bits; a value that does not fit
  has no defined result.
\<close>

fun atol_digits :: "int \<Rightarrow> string \<Rightarrow> int" where
  "atol_digits acc [] = acc"
| "atol_digits acc (c # cs) =
     (if isdigit c then atol_digits (acc * 10 + (int (of_char c) - 48)) cs else acc)"

definition atol :: "string \<Rightarrow> fault + int" where
  "atol s =
     (let v = (case dropWhile (\<lambda>c. c = CHR '' '' \<or> c = TAB \<or> c = NL \<or> c = CR \<or>
                                    c = CHR 0x0B \<or> c = CHR 0x0C) s of
                 [] \<Rightarrow> 0
               | c # cs \<Rightarrow>
                   if c = CHR ''-'' then - atol_digits 0 cs
                   else if c = CHR ''+'' then atol_digits 0 cs
                   else atol_digits 0 (c # cs))
      in if - (2 ^ 63) \<le> v \<and> v < 2 ^ 63 then Inr v else Inl OutOfRange)"

text \<open>The conversion of a \<^verbatim>\<open>long\<close> to the 32-bit \<^verbatim>\<open>int\<close> of a struct member.\<close>

definition to_int32 :: "int \<Rightarrow> int" where
  "to_int32 v = (v + 2 ^ 31) mod 2 ^ 32 - 2 ^ 31"

section \<open>Scanner primitives (idl_parser.cxx)\<close>

text \<open>
  A cursor \<^verbatim>\<open>const char *s\<close> is the text from the cursor to the terminating NUL; the
  readers return what they captured and, as in the source, the number of bytes consumed.
  A destination of \<open>size\<close> bytes is overrun when the captured text and its terminator do
  not fit.
\<close>

definition skip_spaces :: "string \<Rightarrow> nat" where
  "skip_spaces src = length (takeWhile (\<lambda>c. c = CHR '' '' \<or> c = NL) src)"

definition is_name_char :: "char \<Rightarrow> bool" where
  "is_name_char c = (isdigit c \<or> isalpha c \<or> c = CHR ''_'' \<or> c = CHR '':'')"

text \<open>
  \<^verbatim>\<open>read_name\<close>: a bad first character is only reported, and the loop then copies
  nothing. (The early return on a newline is never taken: \<^verbatim>\<open>skip_spaces\<close> has skipped
  every newline.)
\<close>

definition read_name :: "string \<Rightarrow> nat \<Rightarrow> fault + (string \<times> nat)" where
  "read_name src sz =
     (let k = skip_spaces src;
          nm = takeWhile is_name_char (drop k src)
      in if length nm \<ge> sz then Inl BufferOverflow else Inr (nm, k + length nm))"

text \<open>\<^verbatim>\<open>read_token\<close> without a symbol set, as every caller uses it.\<close>

definition read_token :: "string \<Rightarrow> nat \<Rightarrow> fault + (string \<times> nat)" where
  "read_token src sz =
     (let k = skip_spaces src;
          tok = takeWhile is_name_char (drop k src)
      in if drop k src = [] then Inr ([], 0)
         else if length tok \<ge> sz then Inl BufferOverflow
         else Inr (tok, k + length tok))"

definition expect_symbol :: "string \<Rightarrow> char \<Rightarrow> nat" where
  "expect_symbol src symbol =
     (let k = skip_spaces src in if drop k src = [] then k else Suc k)"

definition get_symbol :: "string \<Rightarrow> char" where
  "get_symbol src = (case drop (skip_spaces src) src of [] \<Rightarrow> NUL | c # _ \<Rightarrow> c)"

text \<open>
  The scanning loop of \<^verbatim>\<open>read_block\<close>. Its arguments are the delimiters, the byte
  before the cursor (\<^verbatim>\<open>*(s - 1)\<close>), the flags \<^verbatim>\<open>is_string\<close>, \<^verbatim>\<open>braces\<close> and
  \<^verbatim>\<open>counter\<close>, the text at the cursor and the text captured so far; it returns the
  captured text and the text left after the block. After a backslash-newline the cursor
  has moved by two before the rest of the iteration runs; when that lands on the
  terminating NUL the NUL is copied and the cursor leaves the text.
\<close>

function rb_loop ::
  "char \<Rightarrow> char \<Rightarrow> char \<Rightarrow> bool \<Rightarrow> int \<Rightarrow> int \<Rightarrow> string \<Rightarrow> string \<Rightarrow> fault + (string \<times> string)"
  where
  "rb_loop from to prev is_string braces counter [] acc = Inr (acc, [])"
| "rb_loop from to prev is_string braces counter (c # cs) acc =
     (if \<not> is_string then
        (if c = DQ then
           (if c = to \<and> counter = 0 \<and> braces = 0 then Inr (acc, cs)
            else rb_loop from to c True braces counter cs (acc @ [c]))
         else
           (let braces1 = (if c = CHR ''('' then braces + 1
                           else if c = CHR '')'' then braces - 1 else braces);
                escaped = (c = BSL \<and> take 1 cs = [NL]);
                s1 = (if escaped then drop 1 cs else c # cs)
            in case s1 of
                 [] \<Rightarrow> Inl OutOfRange
               | d # ds \<Rightarrow>
                   (let counter1 =
                          (if from \<noteq> NUL \<and> to \<noteq> NUL then
                             (if d = from then counter + 1
                              else if d = to then counter - 1 else counter)
                           else counter)
                    in if d = to \<and> counter1 = 0 \<and> braces1 = 0 then Inr (acc, ds)
                       else rb_loop from to d False braces1 counter1 ds (acc @ [d]))))
      else
        (if c = DQ \<and> prev \<noteq> BSL then
           (if c = to then Inr (acc, cs)
            else rb_loop from to c False braces counter cs (acc @ [c]))
         else rb_loop from to c True braces counter cs (acc @ [c])))"
  by pat_completeness auto
termination
  by (relation "measure (\<lambda>(from, to, prev, is_string, braces, counter, s, acc). length s)")
    (auto split: if_splits dest: arg_cong [where f = length])

definition read_block :: "string \<Rightarrow> nat \<Rightarrow> char \<Rightarrow> char \<Rightarrow> fault + (string \<times> nat)" where
  "read_block src sz from to =
     (case dropWhile (\<lambda>c. c = CHR '' '') src of
        [] \<Rightarrow> Inr ([], 0)
      | c # cs \<Rightarrow>
          (case (if c = from
                 then rb_loop from to c (c = DQ) (if c = CHR ''('' then 1 else 0) 1 cs []
                 else rb_loop from to NUL False 0 0 (c # cs) [])
           of Inl f \<Rightarrow> Inl f
            | Inr (cap, rest) \<Rightarrow>
                if length cap \<ge> sz then Inl BufferOverflow
                else Inr (cap, length src - length rest)))"

section \<open>Declarations (idl_parser.cxx)\<close>

text \<open>Errors are threaded through with \<open>bindF\<close>; \<open>nth_f\<close> is an index into a vector.\<close>

definition bindF :: "fault + 'a \<Rightarrow> ('a \<Rightarrow> fault + 'b) \<Rightarrow> fault + 'b" where
  "bindF m f = (case m of Inl e \<Rightarrow> Inl e | Inr x \<Rightarrow> f x)"

definition nth_f :: "'a list \<Rightarrow> nat \<Rightarrow> fault + 'a" where
  "nth_f xs i = (if i < length xs then Inr (xs ! i) else Inl OutOfRange)"

definition type2Name :: "'a Parser_scheme \<Rightarrow> int \<Rightarrow> fault + string" where
  "type2Name P t =
     (if t \<ge> USER_BASE_SPACER_STRUCT then
        bindF (nth_f (structs P) (nat (t - USER_BASE_SPACER_STRUCT))) (\<lambda>s. Inr (s_name s))
      else if t \<ge> USER_BASE_SPACER_TYPEDEF then
        bindF (nth_f (typedefs P) (nat (t - USER_BASE_SPACER_TYPEDEF))) (\<lambda>d. Inr (td_name d))
      else if t \<ge> BASE_SPACER then nth_f internal_names (nat (t - BASE_SPACER))
      else if t \<ge> TYPE_SPACER then nth_f internal_names (nat (t - TYPE_SPACER))
      else Inr [])"

definition parse_typedef ::
  "(string \<Rightarrow> hash_t) \<Rightarrow> 'a Parser_scheme \<Rightarrow> string \<Rightarrow> fault + 'a Parser_scheme" where
  "parse_typedef H P body =
     (let input = replace_all '', '' '','' body;
          mar = Explode input (CHR '' '');
          b_hash = (if length mar \<ge> 2 then H (mar ! 0) else 0)
      in case (case is_builtin_type H b_hash of Some r \<Rightarrow> Some r
               | None \<Rightarrow> is_user_base P b_hash) of
           Some result \<Rightarrow>
             bindF (type2Name P result) (\<lambda>baseTypeName.
             bindF (nth_f mar 1) (\<lambda>newTypeName.
               Inr (P\<lparr>typedefs := typedefs P @
                      [\<lparr>td_hash = H newTypeName, td_type = result, td_name = newTypeName,
                        td_baseName = baseTypeName, td_nameSpace = nameSpace P,
                        td_size = - 1\<rparr>]\<rparr>)))
         | None \<Rightarrow>
             bindF (nth_f mar 0) (\<lambda>m0.
               if contains ''sequence'' m0 then
                 bindF (nth_f mar 1) (\<lambda>m1.
                 bindF (nth_f
                          (Explode (replace_all ''>'' '' '' (replace_all ''<'' '' '' m0))
                             (CHR '' '')) 1) (\<lambda>elem.
                   let typeDef =
                         \<lparr>td_hash = H m1, td_type = int ID_SEQUENCE + TYPE_SPACER,
                           td_name = m1, td_baseName = elem, td_nameSpace = nameSpace P,
                           td_size = 0\<rparr>;
                       mar2 = Explode m0 (CHR '','')
                   in if length mar2 \<ge> 2 then
                        (let a = replace_all ''<'' '' '' (mar2 ! 0);
                             b = replace_all ''>'' [] (mar2 ! 1);
                             mar3 = Explode a (CHR '' '')
                         in bindF
                              (if length mar3 = 2 then
                                 (case getRealType H P (H (mar3 ! 1)) of
                                    None \<Rightarrow> Inl NoReturn
                                  | Some t \<Rightarrow> Inr (typeDef\<lparr>td_baseName := td_name t\<rparr>))
                               else Inr typeDef)
                              (\<lambda>typeDef1.
                            bindF (atol b) (\<lambda>n.
                                 Inr (P\<lparr>typedefs := typedefs P @
                                        [typeDef1\<lparr>td_size := to_int32 n\<rparr>]\<rparr>))))
                      else Inr (P\<lparr>typedefs := typedefs P @ [typeDef]\<rparr>)))
               else Inr P))"

definition parse_variable ::
  "(string \<Rightarrow> hash_t) \<Rightarrow> 'a Parser_scheme \<Rightarrow> hash_t \<Rightarrow> string \<Rightarrow> string \<Rightarrow> string \<Rightarrow> bool
     \<Rightarrow> fault + (Variable_t \<times> 'a Parser_scheme)" where
  "parse_variable H P type struct_name name fromNamespace is_key =
     (case getRealType H P type of
        None \<Rightarrow> Inl NoReturn
      | Some t \<Rightarrow>
          (let v = \<lparr>v_hash = H name, v_type = t, v_is_key = is_key, v_name = name,
                     v_struct_name = struct_name, v_fromNamespace = fromNamespace\<rparr>
           in Inr (v, P\<lparr>variables := variables P @ [v]\<rparr>)))"

text \<open>\<^verbatim>\<open>remove_namespace\<close> returns the name and writes the namespace it cut off.\<close>

definition remove_namespace :: "string \<Rightarrow> string \<times> string" where
  "remove_namespace name =
     (let s = replace_all ''::'' ''/'' name;
          mar = Explode s (CHR ''/'')
      in if length mar \<ge> 2 then (basename (mar ! 1), mar ! 0) else (s, []))"

text \<open>
  One statement of a struct body, already split into \<open>mar\<close>: the body of the
  \<^verbatim>\<open>while\<close> loop of \<^verbatim>\<open>parse_struct\<close> after the split. It returns the fields to
  append (none or one). With three tokens or more and a first token other than
  \<^verbatim>\<open>@key\<close> the source reports the token and goes on to \<^verbatim>\<open>parse_variable\<close> with the
  local \<^verbatim>\<open>type\<close> never assigned.
\<close>

definition struct_statement ::
  "(string \<Rightarrow> hash_t) \<Rightarrow> 'a Parser_scheme \<Rightarrow> string \<Rightarrow> string list
     \<Rightarrow> fault + (Variable_t list \<times> 'a Parser_scheme)" where
  "struct_statement H P name mar =
     (if length mar \<ge> 2 then
        (if length mar \<ge> 3 then
           (if mar ! 0 = ''@key'' then
              (let (m0, fromNameSpace) = remove_namespace (mar ! 0) in
               bindF (parse_variable H P (H (mar ! 1)) name (mar ! 2) fromNameSpace True)
                 (\<lambda>(v, P1). Inr ([v], P1)))
            else Inl Uninitialised)
         else
           (let (m0, fromNameSpace) = remove_namespace (mar ! 0) in
            bindF (parse_variable H P (H m0) name (mar ! 1) fromNameSpace False)
              (\<lambda>(v, P1). Inr ([v], P1))))
      else Inr ([], P))"

lemma rb_loop_rest:
  "rb_loop fr t0 prev is_string braces counter s acc = Inr (cap, rest) \<Longrightarrow>
   length rest \<le> length s \<and> (s \<noteq> [] \<longrightarrow> length rest < length s)"
proof (induction fr t0 prev is_string braces counter s acc rule: rb_loop.induct)
  case (1 fr t0 prev is_string braces counter acc)
  then show ?case by simp
next
  case (2 fr t0 prev is_string braces counter c cs acc)
  show ?case
  proof (cases is_string)
    case True
    with 2 show ?thesis
      by (auto split: if_splits simp: le_imp_less_Suc)
  next
    case False
    show ?thesis
    proof (cases "c = DQ")
      case True
      with False 2 show ?thesis
        by (auto split: if_splits simp: le_imp_less_Suc)
    next
      case nq: False
      define s1 where "s1 = (if c = BSL \<and> take 1 cs = [NL] then drop 1 cs else c # cs)"
      have len: "length s1 \<le> Suc (length cs)" by (auto simp: s1_def)
      from "2.prems" False nq obtain d ds where s1: "s1 = d # ds"
        by (cases s1) (auto simp: s1_def Let_def split: if_splits)
      from len s1 have lds: "length ds \<le> length cs" by simp
      from "2.prems" False nq s1 [unfolded s1_def]
      have "rest = ds \<or> (\<exists>b k. rb_loop fr t0 d False b k ds (acc @ [d]) = Inr (cap, rest)
              \<and> length rest \<le> length ds)"
        using "2.IH"(2) [OF False nq refl refl refl, of d ds]
        by (auto simp: Let_def split: if_splits list.splits)
      with lds show ?thesis by auto
    qed
  qed
qed

lemma read_block_progress:
  assumes "read_block s sz fr t0 = Inr (cap, n)" and "s \<noteq> []"
  shows "length s - (skip_spaces (drop n s) + n) < length s"
proof (cases "dropWhile (\<lambda>c. c = CHR '' '') s")
  case Nil
  then have all: "\<forall>c\<in>set s. c = CHR '' ''" by simp
  from assms(1) have n: "n = 0" unfolding read_block_def Nil by simp
  from all have "takeWhile (\<lambda>c. c = CHR '' '' \<or> c = NL) s = s"
    by simp
  then have "skip_spaces s = length s" by (simp only: skip_spaces_def)
  with n assms(2) show ?thesis by simp
next
  case (Cons c cs)
  have le: "length (c # cs) \<le> length s"
    using length_dropWhile_le [of "\<lambda>c. c = CHR '' ''" s] Cons by simp
  from assms(1) obtain rest where n: "n = length s - length rest"
    and r: "(c = fr \<and> rb_loop fr t0 c (c = DQ) (if c = CHR ''('' then 1 else 0) 1 cs []
               = Inr (cap, rest)) \<or>
            (c \<noteq> fr \<and> rb_loop fr t0 NUL False 0 0 (c # cs) [] = Inr (cap, rest))"
    unfolding read_block_def Cons by (auto split: if_splits sum.splits)
  from r have "length rest < length (c # cs)"
    using rb_loop_rest [of fr t0 c "c = DQ" "if c = CHR ''('' then 1 else 0" 1 cs "[]" cap rest]
      rb_loop_rest [of fr t0 NUL False 0 0 "c # cs" "[]" cap rest]
    by auto
  with le n have "0 < n" "n \<le> length s" by simp_all
  then show ?thesis by simp
qed

text \<open>
  The loop of \<^verbatim>\<open>parse_struct\<close> over the statements of the body; \<open>fields\<close> is
  \<^verbatim>\<open>str.fields\<close> so far.
\<close>

function struct_fields ::
  "(string \<Rightarrow> hash_t) \<Rightarrow> string \<Rightarrow> string \<Rightarrow> 'a Parser_scheme \<Rightarrow> Variable_t list
     \<Rightarrow> fault + (Variable_t list \<times> 'a Parser_scheme)" where
  "struct_fields H name s P flds =
     (if s = [] then Inr (flds, P)
      else
        (case read_block s 4096 NUL (CHR '';'') of
           Inl f \<Rightarrow> Inl f
         | Inr (variable, n) \<Rightarrow>
             (case struct_statement H P name (Explode variable (CHR '' '')) of
                Inl f \<Rightarrow> Inl f
              | Inr (vs, P1) \<Rightarrow>
                  struct_fields H name (drop (skip_spaces (drop n s)) (drop n s)) P1
                    (flds @ vs))))"
  by pat_completeness auto
termination
  by (relation "measure (\<lambda>(H, name, s, P, flds). length s)")
    (auto simp: read_block_progress)

text \<open>
  \<^verbatim>\<open>parse_struct\<close>. The minified copy \<^verbatim>\<open>sbody\<close> is only printed; the fields are read
  from \<^verbatim>\<open>body\<close>. The struct is pushed once the loop is over.
\<close>

definition parse_struct ::
  "(string \<Rightarrow> hash_t) \<Rightarrow> 'a Parser_scheme \<Rightarrow> hash_t \<Rightarrow> string \<Rightarrow> string
     \<Rightarrow> fault + 'a Parser_scheme" where
  "parse_struct H P type name body =
     bindF (getBase H type) (\<lambda>base.
     bindF (struct_fields H name (drop (skip_spaces body) body) P []) (\<lambda>(flds, P1).
       Inr (P1\<lparr>structs := structs P1 @
              [\<lparr>s_hash = H name, s_type = base, s_name = name, s_nameSpace = nameSpace P,
                s_fields = flds\<rparr>]\<rparr>)))"

section \<open>The declaration parser (IdlParser::parse)\<close>

text \<open>\<^verbatim>\<open>ifdef\<close>, \<^verbatim>\<open>define\<close> and \<^verbatim>\<open>undef\<close> of \<^verbatim>\<open>IdlParser\<close> act on a define table.\<close>

definition ifdef :: "(string \<times> string) list \<Rightarrow> string \<Rightarrow> bool" where
  "ifdef defs name = (map_of defs name \<noteq> None)"

definition define_name :: "string \<Rightarrow> string \<Rightarrow> (string \<times> string) list \<Rightarrow> (string \<times> string) list" where
  "define_name name val defs = AList.update name val defs"

definition undef :: "string \<Rightarrow> (string \<times> string) list \<Rightarrow> (string \<times> string) list" where
  "undef name defs = AList.delete name defs"

text \<open>
  What \<^verbatim>\<open>parse\<close> does with a token other than \<^verbatim>\<open>module\<close>, from the text \<open>s\<close>
  behind the token: a variable of a builtin or user type, a \<^verbatim>\<open>typedef\<close>, a
  \<^verbatim>\<open>struct\<close>, a define used as an opaque line, or an unknown token (reported, nothing
  consumed). It returns the bytes consumed and the new session.
\<close>

definition parse_decl ::
  "(string \<Rightarrow> hash_t) \<Rightarrow> string \<Rightarrow> hash_t \<Rightarrow> string \<Rightarrow> IdlParser \<Rightarrow> fault + (nat \<times> IdlParser)"
  where
  "parse_decl H buf b_hash s st =
     (if is_builtin_type H b_hash \<noteq> None \<or> is_user_base st b_hash \<noteq> None then
        bindF (read_name s 1024) (\<lambda>(name, a).
        bindF (read_block s 4096 NUL (CHR '';'')) (\<lambda>(vars, m).
        bindF (parse_variable H st b_hash [] vars [] False) (\<lambda>(v, st1). Inr (m, st1))))
      else
        (case is_builtin_base H b_hash of
           Some result \<Rightarrow>
             (if result - BASE_SPACER = int ID_TYPEDEF then
                (let k = skip_spaces s in
                 bindF (read_block (drop k s) 4096 NUL (CHR '';'')) (\<lambda>(td, m).
                 bindF (parse_typedef H st td) (\<lambda>st1. Inr (k + m, st1))))
              else if result - BASE_SPACER = int ID_STRUCT then
                bindF (read_name s 1024) (\<lambda>(name, a).
                  let s2 = drop a s;
                      b = expect_symbol s2 (CHR ''{'');
                      s3 = drop b s2
                  in bindF (read_block s3 (length s3 + 1) NUL (CHR ''}'')) (\<lambda>(dest, c).
                     bindF (parse_struct H st b_hash name dest) (\<lambda>st1.
                       Inr (a + b + c + (if take 1 (drop c s3) = '';'' then 1 else 0), st1))))
              else Inr (0, st))
         | None \<Rightarrow>
             (if ifdef (defines_map st) buf then
                bindF (read_block s 4096 NUL (CHR '')'')) (\<lambda>(vars, m).
                  Inr (m, st\<lparr>udefines := udefines st @ [\<lparr>ud_line = buf @ vars @ '');''\<rparr>]\<rparr>))
              else Inr (0, st))))"

definition is_module_token :: "(string \<Rightarrow> hash_t) \<Rightarrow> IdlParser \<Rightarrow> hash_t \<Rightarrow> bool" where
  "is_module_token H st b_hash =
     (is_builtin_type H b_hash = None \<and> is_user_base st b_hash = None \<and>
      is_builtin_base H b_hash = Some (int ID_MODULE + BASE_SPACER))"

lemma read_token_pos: "read_token s sz = Inr (buf, n) \<Longrightarrow> buf \<noteq> [] \<Longrightarrow> 0 < n"
  by (auto simp: read_token_def Let_def split: if_splits)

text \<open>
  The loop of \<^verbatim>\<open>parse\<close>. \<open>pre\<close> is the text of this call's \<^verbatim>\<open>src\<close> before the
  cursor and \<open>s0\<close> the text at the cursor; a nested call starts with an empty \<open>pre\<close>.
  \<^verbatim>\<open>while (*s)\<close> is tested before anything is read, so at the end of the text the
  call returns with \<^verbatim>\<open>line\<close> as the last pass left it. The
  result is the return value \<^verbatim>\<open>s - src\<close>, the session, and the module names that the
  \<^verbatim>\<open>module\<close> case traced (\<^verbatim>\<open>TRACE_DEBUG("module name : " << name)\<close>), in order. The
  module case assigns \<^verbatim>\<open>nameSpace\<close> and recurses; nothing is assigned after the
  recursion.
\<close>

function parse_loop ::
  "(string \<Rightarrow> hash_t) \<Rightarrow> string \<Rightarrow> string \<Rightarrow> IdlParser \<Rightarrow> string list
     \<Rightarrow> fault + (nat \<times> IdlParser \<times> string list)" where
  "parse_loop H pre s0 st0 log =
     (if s0 = [] then Inr (length pre, st0, log)
      else
      let k = skip_spaces s0;
          pre1 = pre @ take k s0;
          s = drop k s0;
          l = rev (takeWhile (\<lambda>c. c \<noteq> NL) (rev pre1)) @ s
      in case read_block l 1024 NUL NL of
           Inl f \<Rightarrow> Inl f
         | Inr (ln, ll) \<Rightarrow>
            (let st = st0\<lparr>line := ln\<rparr> in
             case s of
               [] \<Rightarrow> Inr (length pre1, st, log)
             | c # cs \<Rightarrow>
                 if c = CHR '';'' then parse_loop H (pre1 @ [c]) cs st log
                 else if c = CHR ''{'' then
                   (case parse_loop H [] cs st [] of
                      Inl f \<Rightarrow> Inl f
                    | Inr (n, st1, log1) \<Rightarrow>
                        parse_loop H (pre1 @ c # take n cs) (drop n cs) st1 (log @ log1))
                 else if c = CHR ''}'' then Inr (Suc (length pre1), st, log)
                 else
                   (case read_token (c # cs) 256 of
                      Inl f \<Rightarrow> Inl f
                    | Inr (buf, n) \<Rightarrow>
                        if buf = [] then Inr (length pre1 + n, st, log)
                        else if is_module_token H st (H buf) then
                          (case read_name (drop n (c # cs)) 1024 of
                             Inl f \<Rightarrow> Inl f
                           | Inr (name, m) \<Rightarrow>
                               (case parse_loop H [] (drop m (drop n (c # cs)))
                                       (st\<lparr>nameSpace := name\<rparr>) [] of
                                  Inl f \<Rightarrow> Inl f
                                | Inr (n2, st2, log2) \<Rightarrow>
                                    parse_loop H
                                      (pre1 @ take (n + m + n2) (c # cs))
                                      (drop n2 (drop m (drop n (c # cs)))) st2
                                      (log @ name # log2)))
                        else
                          (case parse_decl H buf (H buf) (drop n (c # cs)) st of
                             Inl f \<Rightarrow> Inl f
                           | Inr (m, st1) \<Rightarrow>
                               parse_loop H (pre1 @ take (n + m) (c # cs))
                                 (drop m (drop n (c # cs))) st1 log))))"
  by pat_completeness auto
termination
proof (relation "measure (\<lambda>(H, pre, s0, st0, log). length s0)", goal_cases)
  case 1
  show ?case by simp
next
  case (2 H pre s0 st0 log k pre1 s l x2 ln ll st c cs)
  then have "drop k s0 = c # cs" by simp
  then have "length (drop k s0) = length (c # cs)" by (rule arg_cong)
  then have "length s0 - k = Suc (length cs)" by simp
  then show ?case by simp
next
  case (3 H pre s0 st0 log k pre1 s l x2 ln ll st c cs)
  then have "drop k s0 = c # cs" by simp
  then have "length (drop k s0) = length (c # cs)" by (rule arg_cong)
  then have "length s0 - k = Suc (length cs)" by simp
  then show ?case by simp
next
  case (4 H pre s0 st0 log k pre1 s l x2 ln ll st c cs x2a n y st1 log1)
  then have "drop k s0 = c # cs" by simp
  then have "length (drop k s0) = length (c # cs)" by (rule arg_cong)
  then have "length s0 - k = Suc (length cs)" by simp
  then show ?case by simp
next
  case (5 H pre s0 st0 log k pre1 s l x2 ln ll st c cs x2a buf n name)
  then have "drop k s0 = c # cs" by simp
  then have "length (drop k s0) = length (c # cs)" by (rule arg_cong)
  then have "length s0 - k = Suc (length cs)" by simp
  moreover from 5 read_token_pos [of "c # cs" 256 buf n] have "0 < n" by simp
  ultimately show ?case by simp
next
  case (6 H pre s0 st0 log k pre1 s l x2 ln ll st c cs x2a buf n x2b name m x2c n2 y st2 log2)
  then have "drop k s0 = c # cs" by simp
  then have "length (drop k s0) = length (c # cs)" by (rule arg_cong)
  then have "length s0 - k = Suc (length cs)" by simp
  moreover from 6 read_token_pos [of "c # cs" 256 buf n] have "0 < n" by simp
  ultimately show ?case by simp
next
  case (7 H pre s0 st0 log k pre1 s l x2 ln ll st c cs x2a buf n x2b m st1)
  then have "drop k s0 = c # cs" by simp
  then have "length (drop k s0) = length (c # cs)" by (rule arg_cong)
  then have "length s0 - k = Suc (length cs)" by simp
  moreover from 7 read_token_pos [of "c # cs" 256 buf n] have "0 < n" by simp
  ultimately show ?case by simp
qed

declare struct_fields.simps [simp del] parse_loop.simps [simp del]

definition parse ::
  "(string \<Rightarrow> hash_t) \<Rightarrow> string \<Rightarrow> IdlParser \<Rightarrow> fault + (nat \<times> IdlParser \<times> string list)" where
  "parse H src st = parse_loop H [] src st []"

section \<open>The preprocessor (IdlParser::preprocessor)\<close>

subsection \<open>Minification\<close>

text \<open>
  The loop that copies a string literal, in \<^verbatim>\<open>minify_code\<close> and again in the
  preprocessor: \<^verbatim>\<open>while(*s && (*s != '"' || *(s - 1) == '\\')) *d++ = *s++;\<close>. The first
  argument is the byte before the cursor; the result is the text copied and the text left,
  which is empty or starts with the closing quote.
\<close>

fun str_body :: "char \<Rightarrow> string \<Rightarrow> string \<times> string" where
  "str_body prev [] = ([], [])"
| "str_body prev (c # cs) =
     (if c \<noteq> DQ \<or> prev = BSL then (case str_body c cs of (a, r) \<Rightarrow> (c # a, r))
      else ([], c # cs))"

text \<open>
  The scan for the end of a block comment,
  \<^verbatim>\<open>while(*s && (*s != '*' || *(s + 1) != '/')) s++; s += 2;\<close>: the text behind the
  closing \<^verbatim>\<open>*/\<close>, or \<open>None\<close> when the scan stops at the terminating NUL, from where
  \<^verbatim>\<open>s += 2\<close> leaves the buffer.
\<close>

fun skip_block :: "string \<Rightarrow> string option" where
  "skip_block [] = None"
| "skip_block (c # cs) =
     (if c = CHR ''*'' \<and> take 1 cs = ''/'' then Some (drop 1 cs) else skip_block cs)"

lemma str_body_rest: "str_body prev s = (a, r) \<Longrightarrow> length r \<le> length s"
  by (induction prev s arbitrary: a r rule: str_body.induct)
    (auto split: if_splits prod.splits)

lemma skip_block_rest: "skip_block s = Some r \<Longrightarrow> length r < length s"
  by (induction s) (auto split: if_splits)

text \<open>The macro \<^verbatim>\<open>minify_code\<close>: the text written through \<^verbatim>\<open>d\<close>.\<close>

function minify_code :: "string \<Rightarrow> fault + string" where
  "minify_code [] = Inr []"
| "minify_code (c # cs) =
     (if c = CHR ''/'' \<and> take 1 cs = ''/'' then
        minify_code (dropWhile (\<lambda>x. x \<noteq> NL) (c # cs))
      else if c = CHR ''/'' \<and> take 1 cs = ''*'' then
        (case skip_block (c # cs) of
           None \<Rightarrow> Inl OutOfRange
         | Some r \<Rightarrow> minify_code r)
      else if c = DQ then
        (case str_body c cs of
           (a, []) \<Rightarrow> Inr (c # a)
         | (a, q # r) \<Rightarrow> map_sum id (\<lambda>y. c # a @ q # y) (minify_code r))
      else if c = CR then minify_code cs
      else if c = TAB then map_sum id (\<lambda>y. CHR '' '' # y) (minify_code cs)
      else if c = CHR '' '' \<and> take 1 cs = '' '' then minify_code cs
      else if c = NL \<and> take 1 cs = [NL] then minify_code cs
      else map_sum id (\<lambda>y. c # y) (minify_code cs))"
  by pat_completeness auto
termination
proof (relation "measure length", goal_cases)
  case 1
  show ?case by simp
next
  case (2 c cs)
  then have "dropWhile (\<lambda>x. x \<noteq> NL) (c # cs) = dropWhile (\<lambda>x. x \<noteq> NL) cs" by simp
  with length_dropWhile_le [of "\<lambda>x. x \<noteq> NL" cs] show ?case by simp
next
  case (3 c cs r)
  with skip_block_rest [of "c # cs" r] show ?case by simp
next
  case (4 c cs x y q r)
  then have "str_body c cs = (x, q # r)" by simp
  from str_body_rest [OF this] show ?case by simp
qed simp_all

text \<open>
  Text on which \<^verbatim>\<open>minify_code\<close> has nothing to remove but repeated spaces and
  newlines: no tab, no carriage return, and neither comment opener.
\<close>

definition plain :: "string \<Rightarrow> bool" where
  "plain x \<longleftrightarrow> TAB \<notin> set x \<and> CR \<notin> set x \<and> \<not> contains ''//'' x \<and> \<not> contains ''/*'' x"

subsection \<open>Directives and macro substitution\<close>

text \<open>
  The pointer that \<^verbatim>\<open>preprocessor\<close> returns: the text of a live buffer, or a buffer that
  \<^verbatim>\<open>N_DEALLOCATE\<close> has released before the \<^verbatim>\<open>return\<close>.
\<close>

datatype buffer = Text string | Released

text \<open>The delimiter set of the substitution, \<^verbatim>\<open>" \n,.=:;()[]{}<>+-*/%!&|^\"'"\<close>.\<close>

definition delimiters :: string where
  "delimiters = '' '' @ [NL] @ '',.=:;()[]{}<>+-*/%!&|^'' @ [DQ, SQ]"

definition is_delim :: "char \<Rightarrow> bool" where
  "is_delim c = (c \<in> set delimiters)"

text \<open>The recomputation of \<^verbatim>\<open>define_ok\<close> that follows every change of the stack.\<close>

fun scan_stack :: "int list \<Rightarrow> int" where
  "scan_stack [] = 1"
| "scan_stack (v # vs) = (if v = 0 then 0 else scan_stack vs)"

text \<open>
  Modelled from the spec: the conversion \<^verbatim>\<open>String(int)\<close> of \<^verbatim>\<open>str.h\<close>, which the
  spec uses for "the current line number": the decimal digits of a line count.
\<close>

fun dec :: "nat \<Rightarrow> string" where
  "dec n = (if n < 10 then [''0123456789'' ! n]
            else dec (n div 10) @ [''0123456789'' ! (n mod 10)])"

declare dec.simps [simp del]

text \<open>
  The state of the main loop: the session (for \<^verbatim>\<open>defines\<close> and \<^verbatim>\<open>line\<close>), the text
  written so far (\<^verbatim>\<open>data\<close> up to \<^verbatim>\<open>d\<close>), the text at \<^verbatim>\<open>s\<close>, and the locals
  \<^verbatim>\<open>defines\<close> (the stack of conditions), \<^verbatim>\<open>define_ok\<close> and \<^verbatim>\<open>current_line\<close>.
\<close>

record pp_state =
  pp_session :: IdlParser
  pp_out :: string
  pp_rest :: string
  pp_stack :: "int list"
  pp_define_ok :: int
  pp_current_line :: nat

text \<open>
  \<^verbatim>\<open>#include\<close> calls \<^verbatim>\<open>preprocessor(name)\<close>, which reads a file and preprocesses it
  in the same session; the loop takes that call as a parameter.
\<close>

type_synonym includer = "string \<Rightarrow> IdlParser \<Rightarrow> fault + (buffer \<times> IdlParser)"

text \<open>
  The directive branch, with \<^verbatim>\<open>*s == '#'\<close>. After \<^verbatim>\<open>#else\<close> or \<^verbatim>\<open>#endif\<close> on an
  empty stack the source releases the buffer, prints, and then indexes or pops the empty
  vector; after an unknown directive it releases the buffer, prints, and goes on reading
  it.
\<close>

definition pp_directive :: "includer \<Rightarrow> pp_state \<Rightarrow> fault + (nat \<times> pp_state)" where
  "pp_directive inc st =
     bindF (read_block (pp_rest st) 1024 NUL NL) (\<lambda>(ln, ll).
     bindF (read_token (drop 1 (pp_rest st)) 256) (\<lambda>(buf, n).
       let P = (pp_session st)\<lparr>line := ln\<rparr>;
           st1 = st\<lparr>pp_session := P\<rparr>;
           s = drop n (drop 1 (pp_rest st))
       in
       if buf = ''ifdef'' then
         bindF (read_name s 256) (\<lambda>(name, m).
           let stk = pp_stack st @ [if ifdef (defines_map P) name then 1 else 0]
           in Inr (n + m, st1\<lparr>pp_stack := stk, pp_define_ok := scan_stack stk\<rparr>))
       else if buf = ''elif'' then Inr (n + length (takeWhile (\<lambda>c. c \<noteq> NL) s), st1)
       else if buf = ''ifndef'' then
         bindF (read_name s 256) (\<lambda>(name, m).
           let stk = pp_stack st @ [if ifdef (defines_map P) name then 0 else 1]
           in Inr (n + m, st1\<lparr>pp_stack := stk, pp_define_ok := scan_stack stk\<rparr>))
       else if buf = ''else'' then
         (if pp_stack st = [] then Inl OutOfRange
          else
            (let stk = butlast (pp_stack st) @ [if last (pp_stack st) = 0 then 1 else 0]
             in Inr (n, st1\<lparr>pp_stack := stk, pp_define_ok := scan_stack stk\<rparr>)))
       else if buf = ''endif'' then
         (if pp_stack st = [] then Inl OutOfRange
          else
            (let stk = butlast (pp_stack st)
             in Inr (n, st1\<lparr>pp_stack := stk, pp_define_ok := scan_stack stk\<rparr>)))
       else if buf = ''if'' then Inr (n + length (takeWhile (\<lambda>c. c \<noteq> NL) s), st1)
       else if buf = ''define'' then
         bindF (read_name s 256) (\<lambda>(name, m).
         bindF (if take 1 (drop m s) = [NL] then Inr ([], 1)
                else read_block (drop m s) 1024 NUL NL) (\<lambda>(val, k).
           Inr (n + m + k,
                st1\<lparr>pp_session :=
                      (if pp_define_ok st \<noteq> 0
                       then P\<lparr>defines_map := define_name name val (defines_map P)\<rparr>
                       else P)\<rparr>)))
       else if buf = ''undef'' then
         bindF (read_name s 256) (\<lambda>(name, m).
           Inr (n + m,
                st1\<lparr>pp_session :=
                      (if pp_define_ok st \<noteq> 0
                       then P\<lparr>defines_map := undef name (defines_map P)\<rparr>
                       else P)\<rparr>))
       else if buf = ''pragma'' then
         bindF (read_name s 256) (\<lambda>(name, m).
         bindF (read_block (drop m s) 1024 NUL NL) (\<lambda>(val, k). Inr (n + m + k, st1)))
       else if buf = ''include'' then
         bindF (if get_symbol s = DQ then read_block s 256 DQ DQ
                else if get_symbol s = CHR ''<'' then read_block s 256 (CHR ''<'') (CHR ''>'')
                else Inr ([], 0)) (\<lambda>(name, m).
           if pp_define_ok st \<noteq> 0 then
             bindF (inc name P) (\<lambda>(b, P1).
               case b of
                 Released \<Rightarrow> Inl UseAfterFree
               | Text t \<Rightarrow> Inr (n + m, st\<lparr>pp_session := P1, pp_out := pp_out st @ t\<rparr>))
           else Inr (n + m, st1))
       else Inl UseAfterFree))"

text \<open>
  The replacement of a defined word, run when the byte \<open>c\<close> just read is a delimiter and
  something has been written: \<open>run\<close> is the text between the last delimiter written and
  \<open>c\<close>. A value whose first byte is not \<^verbatim>\<open>'0'\<close> takes the place of the run (an empty
  value has the terminating NUL as its first byte); otherwise the run is dropped.
\<close>

definition substitute :: "(string \<times> string) list \<Rightarrow> string \<Rightarrow> char \<Rightarrow> string" where
  "substitute defs out c =
     (let run = rev (takeWhile (\<lambda>x. \<not> is_delim x) (rev out));
          pre = take (length out - length run) out
      in if run \<noteq> [] then
           (case map_of defs run of
              Some v \<Rightarrow> if take 1 v \<noteq> ''0'' then pre @ v @ [c] else pre @ [c]
            | None \<Rightarrow> out @ [c])
         else out @ [c])"

text \<open>
  The other branch: the two dynamic defines are refreshed (\<open>refresh_defines\<close>, the
  two calls of \<^verbatim>\<open>define\<close> for \<^verbatim>\<open>__FILE__\<close> and \<^verbatim>\<open>__LINE__\<close>), and the byte at \<^verbatim>\<open>s\<close> is
  skipped, or copied as part of a character literal, or copied with the word before it
  replaced and the string literal behind it copied through. The test for the
  three-byte literal reads \<^verbatim>\<open>*(s + 2)\<close>, which lies behind the terminating NUL when the
  apostrophe is the last byte of the text.
\<close>

definition refresh_defines ::
  "string \<Rightarrow> nat \<Rightarrow> (string \<times> string) list \<Rightarrow> (string \<times> string) list" where
  "refresh_defines name current_line defs =
     define_name ''__LINE__'' (dec current_line)
       (define_name ''__FILE__'' ([DQ] @ name @ '':'' @ dec current_line @ [DQ]) defs)"

definition pp_char :: "string \<Rightarrow> pp_state \<Rightarrow> fault + (nat \<times> pp_state)" where
  "pp_char name st =
     (case pp_rest st of
        [] \<Rightarrow> Inr (0, st)
      | c # cs \<Rightarrow>
          (let P0 = pp_session st;
               defs = refresh_defines name (pp_current_line st) (defines_map P0);
               st1 = st\<lparr>pp_session := P0\<lparr>line := [], defines_map := defs\<rparr>\<rparr>
           in
           if pp_define_ok st = 0 then Inr (0, st1)
           else if c = SQ \<and> take 1 cs = [BSL] \<and> take 1 (drop 1 cs) \<noteq> [] \<and>
                   take 1 (drop 2 cs) = [SQ] then
             Inr (3, st1\<lparr>pp_out := pp_out st @ take 4 (c # cs)\<rparr>)
           else if c = SQ \<and> cs = [] then Inl OutOfRange
           else if c = SQ \<and> take 1 (drop 1 cs) \<noteq> [BSL] \<and> take 1 (drop 1 cs) = [SQ] then
             Inr (2, st1\<lparr>pp_out := pp_out st @ take 3 (c # cs)\<rparr>)
           else
             (let out1 = (if pp_out st \<noteq> [] \<and> is_delim c then substitute defs (pp_out st) c
                          else pp_out st @ [c])
              in if c = DQ then
                   (case str_body c cs of
                      (a, r) \<Rightarrow>
                        Inr (length a + length (take 1 r), st1\<lparr>pp_out := out1 @ a @ take 1 r\<rparr>))
                 else Inr (0, st1\<lparr>pp_out := out1\<rparr>))))"

text \<open>
  One pass through the body of the \<^verbatim>\<open>while(*s)\<close> loop. Both branches consume the byte
  at \<^verbatim>\<open>s\<close> and return how many bytes they consume behind it.
\<close>

definition pp_step :: "includer \<Rightarrow> string \<Rightarrow> pp_state \<Rightarrow> fault + pp_state" where
  "pp_step inc name st =
     (let st1 = (if take 1 (pp_rest st) = [NL]
                 then st\<lparr>pp_current_line := Suc (pp_current_line st)\<rparr> else st)
      in case (if take 1 (pp_rest st) = ''#'' then pp_directive inc st1 else pp_char name st1)
         of Inl f \<Rightarrow> Inl f
          | Inr (k, st2) \<Rightarrow> Inr (st2\<lparr>pp_rest := drop (Suc k) (pp_rest st)\<rparr>))"

lemma pp_step_rest:
  "pp_step inc name st = Inr st' \<Longrightarrow> pp_rest st \<noteq> [] \<Longrightarrow>
   length (pp_rest st') < length (pp_rest st)"
  unfolding pp_step_def Let_def
  by (cases "if take 1 (pp_rest st) = ''#''
             then pp_directive inc
                    (if take 1 (pp_rest st) = [NL]
                     then st\<lparr>pp_current_line := Suc (pp_current_line st)\<rparr> else st)
             else pp_char name
                    (if take 1 (pp_rest st) = [NL]
                     then st\<lparr>pp_current_line := Suc (pp_current_line st)\<rparr> else st)")
    auto

text \<open>The loop \<^verbatim>\<open>while(*s)\<close>.\<close>

function pp_loop :: "includer \<Rightarrow> string \<Rightarrow> pp_state \<Rightarrow> fault + pp_state" where
  "pp_loop inc name st =
     (if pp_rest st = [] then Inr st
      else (case pp_step inc name st of
              Inl f \<Rightarrow> Inl f
            | Inr st1 \<Rightarrow> pp_loop inc name st1))"
  by pat_completeness auto
termination
  by (relation "measure (\<lambda>(inc, name, st). length (pp_rest st))")
    (auto dest: pp_step_rest)

declare pp_loop.simps [simp del]

text \<open>
  \<^verbatim>\<open>preprocessor(path, file, data, len)\<close>: minify in place, run the loop, and return
  \<^verbatim>\<open>data\<close>, which has been released when the stack of conditions is not empty at the
  end.
\<close>

definition pp_start :: "IdlParser \<Rightarrow> string \<Rightarrow> pp_state" where
  "pp_start P text =
     \<lparr>pp_session = P, pp_out = [], pp_rest = text, pp_stack = [], pp_define_ok = 1,
      pp_current_line = 0\<rparr>"

definition preprocessor_buf ::
  "includer \<Rightarrow> string \<Rightarrow> string \<Rightarrow> IdlParser \<Rightarrow> string \<Rightarrow> fault + (buffer \<times> IdlParser)" where
  "preprocessor_buf inc path file P data =
     bindF (minify_code data) (\<lambda>text.
     bindF (pp_loop inc file (pp_start P text)) (\<lambda>st.
       Inr (if pp_stack st \<noteq> [] then Released else Text (pp_out st), pp_session st)))"

text \<open>
  \<^verbatim>\<open>preprocessor(name)\<close> loads the file and preprocesses it; a missing file fails the
  \<^verbatim>\<open>assert\<close>. The file system is a map from names to contents, and the first argument
  bounds the nesting of includes, which has no bound in the source.
\<close>

fun preprocessor_file ::
  "nat \<Rightarrow> (string \<Rightarrow> string option) \<Rightarrow> string \<Rightarrow> IdlParser \<Rightarrow> fault + (buffer \<times> IdlParser)"
  where
  "preprocessor_file 0 fs name P = Inl FuelExhausted"
| "preprocessor_file (Suc n) fs name P =
     (if length name \<ge> 1024 then Inl BufferOverflow
      else
        (case fs name of
           None \<Rightarrow> Inl AssertFailed
         | Some bytes \<Rightarrow>
             preprocessor_buf (preprocessor_file n fs)
               (take (length name -
                      length (takeWhile (\<lambda>c. c \<noteq> CHR ''/'' \<and> c \<noteq> BSL) (rev name)) - 1) name)
               name P (takeWhile (\<lambda>c. c \<noteq> NUL) bytes)))"

text \<open>An includer for a file system without files.\<close>

definition no_includes :: includer where
  "no_includes name P = Inl AssertFailed"

text \<open>
  The states that the loop passes through: \<open>pp_reaches inc name a b\<close> when the loop
  started in \<open>a\<close> is in \<open>b\<close> at the top of some iteration.
\<close>

inductive pp_reaches :: "includer \<Rightarrow> string \<Rightarrow> pp_state \<Rightarrow> pp_state \<Rightarrow> bool"
  for inc :: includer and name :: string and a :: pp_state where
  start: "pp_reaches inc name a a"
| step: "pp_reaches inc name a b \<Longrightarrow> pp_rest b \<noteq> [] \<Longrightarrow> pp_step inc name b = Inr c \<Longrightarrow>
         pp_reaches inc name a c"

text \<open>
  A hash function for the examples: it reads a name as a number in base 256 behind a
  leading 1, so different names get different hashes.
\<close>

definition example_hash :: "string \<Rightarrow> hash_t" where
  "example_hash s = foldl (\<lambda>h c. h * 256 + of_char c) 1 s"

text \<open>
  Two sessions for the examples: the registry after \<^verbatim>\<open>typedef int32_t int;\<close>, and the
  registry after \<^verbatim>\<open>struct T { }; typedef int32_t T;\<close>.
\<close>

definition ex_session_int :: IdlParser where
  "ex_session_int = IdlParser_init\<lparr>typedefs :=
      [\<lparr>td_hash = example_hash ''int'', td_type = 1029, td_name = ''int'',
        td_baseName = ''int32_t'', td_nameSpace = [], td_size = - 1\<rparr>]\<rparr>"

definition ex_session_T :: IdlParser where
  "ex_session_T = IdlParser_init\<lparr>
     typedefs :=
      [\<lparr>td_hash = example_hash ''T'', td_type = 1029, td_name = ''T'',
        td_baseName = ''int32_t'', td_nameSpace = [], td_size = - 1\<rparr>],
     structs :=
      [\<lparr>s_hash = example_hash ''T'', s_type = 4118, s_name = ''T'', s_nameSpace = [],
        s_fields = []\<rparr>]\<rparr>"

text \<open>Expected results of the examples below.\<close>

definition ex_alias_type :: "(string \<Rightarrow> hash_t) \<Rightarrow> Typedef_t" where
  "ex_alias_type H = \<lparr>td_hash = H ''uint32_t'', td_type = 8192, td_name = ''uint32_t'',
       td_baseName = [], td_nameSpace = [], td_size = - 1\<rparr>"

definition ex_alias_session :: "(string \<Rightarrow> hash_t) \<Rightarrow> IdlParser" where
  "ex_alias_session H = IdlParser_init\<lparr>
     typedefs :=
       [\<lparr>td_hash = H ''A'', td_type = 1036, td_name = ''A'', td_baseName = ''uint32_t'',
         td_nameSpace = [], td_size = - 1\<rparr>,
        \<lparr>td_hash = H ''B'', td_type = 8192, td_name = ''B'', td_baseName = ''A'',
         td_nameSpace = [], td_size = - 1\<rparr>],
     structs :=
       [\<lparr>s_hash = H ''S'', s_type = 4118, s_name = ''S'', s_nameSpace = [],
         s_fields = [\<lparr>v_hash = H ''f'', v_type = ex_alias_type H, v_is_key = False,
                      v_name = ''f'', v_struct_name = ''S'', v_fromNamespace = []\<rparr>]\<rparr>],
     variables :=
       [\<lparr>v_hash = H ''f'', v_type = ex_alias_type H, v_is_key = False,
         v_name = ''f'', v_struct_name = ''S'', v_fromNamespace = []\<rparr>],
     line := ''typedef uint32_t A; typedef A B; struct S { B f; };''\<rparr>"

definition ex_key_fields :: "Variable_t list" where
  "ex_key_fields =
     [\<lparr>v_hash = example_hash ''f'', v_type = Typedef_t_init, v_is_key = True, v_name = ''f'',
       v_struct_name = ''S'', v_fromNamespace = []\<rparr>,
      \<lparr>v_hash = example_hash ''g'',
       v_type = \<lparr>td_hash = example_hash ''int32_t'', td_type = 1029, td_name = ''int32_t'',
                 td_baseName = [], td_nameSpace = [], td_size = - 1\<rparr>,
       v_is_key = False, v_name = ''g'', v_struct_name = ''S'', v_fromNamespace = ''ns''\<rparr>]"

definition ex_key_session :: IdlParser where
  "ex_key_session = IdlParser_init\<lparr>
     typedefs :=
       [\<lparr>td_hash = example_hash ''T'', td_type = 1029, td_name = ''T'',
         td_baseName = ''int32_t'', td_nameSpace = [], td_size = - 1\<rparr>],
     structs :=
       [\<lparr>s_hash = example_hash ''S'', s_type = 4118, s_name = ''S'', s_nameSpace = [],
         s_fields = ex_key_fields\<rparr>],
     variables := ex_key_fields,
     line := ''typedef int32_t T; struct S { @key ns::T f; ns::T g; };''\<rparr>"

definition ex_int32_field :: "string \<Rightarrow> Variable_t" where
  "ex_int32_field sname =
     \<lparr>v_hash = example_hash ''y'',
      v_type = \<lparr>td_hash = example_hash ''int32_t'', td_type = 1029, td_name = ''int32_t'',
                td_baseName = [], td_nameSpace = [], td_size = - 1\<rparr>,
      v_is_key = False, v_name = ''y'', v_struct_name = sname, v_fromNamespace = []\<rparr>"

definition ex_module_session :: "string \<Rightarrow> string \<Rightarrow> IdlParser" where
  "ex_module_session ln ns = IdlParser_init\<lparr>
     structs :=
       [\<lparr>s_hash = example_hash ''T'', s_type = 4118, s_name = ''T'', s_nameSpace = ns,
         s_fields = [ex_int32_field ''T'']\<rparr>],
     variables := [ex_int32_field ''T''],
     nameSpace := ns,
     line := ln\<rparr>"



text \<open>
  Two states of the loop of the preprocessor for the examples: the state behind the
  directive of the text \<^verbatim>\<open>#ifdef A\<close>, and the state that has written \<open>out\<close> and has
  \<open>rest\<close> left to read on line 0 of \<^verbatim>\<open>a.idl\<close>, with \<^verbatim>\<open>FOO\<close> defined as \<^verbatim>\<open>5\<close>.
\<close>

definition ex_pp_ifdef :: pp_state where
  "ex_pp_ifdef =
     \<lparr>pp_session = IdlParser_init\<lparr>line := ''#ifdef A''\<rparr>, pp_out = [], pp_rest = [NL],
      pp_stack = [0], pp_define_ok = 0, pp_current_line = 0\<rparr>"


section \<open>Properties of the registry\<close>

lemma first_index_find:
  "first_index p xs i = Some k \<Longrightarrow>
   i \<le> k \<and> k - i < length xs \<and> find p xs = Some (xs ! (k - i))"
proof (induction xs arbitrary: i)
  case Nil
  then show ?case by simp
next
  case (Cons x xs)
  show ?case
  proof (cases "p x")
    case True
    with Cons.prems show ?thesis by simp
  next
    case False
    with Cons.prems have "first_index p xs (Suc i) = Some k" by simp
    from Cons.IH [OF this] have ih: "Suc i \<le> k" "k - Suc i < length xs"
      "find p xs = Some (xs ! (k - Suc i))" by simp_all
    from ih(1) have d: "k - i = Suc (k - Suc i)" by simp
    from ih False show ?thesis by (simp add: d)
  qed
qed


lemma getRealType_builtin:
  "first_index (\<lambda>n. h = H n) (take LAST_TYPE internal_names) 0 = Some i \<Longrightarrow>
   getRealType H P h =
     Some (Typedef_t_init\<lparr>td_hash := h, td_name := internal_names ! i,
             td_type := int i + TYPE_SPACER\<rparr>)"
  by (subst getRealType.simps) simp


text \<open>
  C1 (counterexample). After \<^verbatim>\<open>typedef int32_t int;\<close> the name \<open>int\<close> is registered
  as a typedef (code 8192) and is a builtin keyword (code 1030). Classification and
  resolution both answer with the builtin: \<open>getType\<close> gives 1030, and \<open>getRealType\<close>
  gives the synthetic builtin entry, not the stored typedef.
\<close>

theorem C1_user_does_not_shadow_builtin:
  "is_typedef ex_session_int (example_hash ''int'') = Some 8192 \<and>
   is_builtin_type example_hash (example_hash ''int'') = Some 1030 \<and>
   getType example_hash ex_session_int (example_hash ''int'') \<noteq> 8192 \<and>
   getRealType example_hash ex_session_int (example_hash ''int'') =
     Some (Typedef_t_init\<lparr>td_hash := example_hash ''int'', td_name := ''int'',
             td_type := 1030\<rparr>)"
  apply (intro conjI)
     apply (simp add: is_typedef_def ex_session_int_def IdlParser_init_def)
    apply (simp add: is_builtin_type_def internal_names_def example_hash_def)
   apply (simp add: getType_def is_builtin_type_def internal_names_def example_hash_def)
  apply (subst getRealType.simps)
  apply (simp add: internal_names_def example_hash_def)
  done

text \<open>
  C1 (amended). The lookup order is builtin type, builtin base keyword, typedef, struct.
  A hash that matches a builtin type keyword is classified and resolved as that builtin,
  whatever the user has registered under it; a hash that matches a base keyword is
  classified as that keyword; and a hash that matches no builtin keyword and is registered
  as a typedef is classified and resolved through the first such typedef, whether or not a
  struct carries the same hash.
\<close>

theorem C1_lookup_order:
  "(is_builtin_type H h = Some r \<longrightarrow>
      getType H P h = r \<and>
      getRealType H P h =
        Some (Typedef_t_init\<lparr>td_hash := h, td_name := internal_names ! nat (r - TYPE_SPACER),
                td_type := r\<rparr>)) \<and>
   (is_builtin_type H h = None \<and> is_builtin_base H h = Some b \<longrightarrow> getType H P h = b) \<and>
   (is_builtin_type H h = None \<and> is_builtin_base H h = None \<and> is_typedef P h = Some k \<longrightarrow>
      getType H P h = k \<and>
      getRealType H P h =
        (let t = typedefs P ! nat (k - USER_BASE_SPACER_TYPEDEF) in
         if td_baseName t \<noteq> [] then
           Option.bind (getRealType H P (H (td_baseName t)))
             (\<lambda>r. Some (r\<lparr>td_type := td_type t, td_size := td_size t\<rparr>))
         else Some t))"
proof (intro conjI impI)
  assume a: "is_builtin_type H h = Some r"
  then show "getType H P h = r" by (simp add: getType_def)
  from a obtain i where i: "first_index (\<lambda>n. h = H n) (take LAST_TYPE internal_names) 0 = Some i"
    and r: "r = int i + TYPE_SPACER"
    by (auto simp: is_builtin_type_def)
  show "getRealType H P h =
        Some (Typedef_t_init\<lparr>td_hash := h, td_name := internal_names ! nat (r - TYPE_SPACER),
                td_type := r\<rparr>)"
    by (subst getRealType.simps) (simp add: i r)
next
  assume "is_builtin_type H h = None \<and> is_builtin_base H h = Some b"
  then show "getType H P h = b" by (simp add: getType_def)
next
  assume a: "is_builtin_type H h = None \<and> is_builtin_base H h = None \<and> is_typedef P h = Some k"
  then show "getType H P h = k" by (simp add: getType_def is_user_base_def)
  from a have n: "first_index (\<lambda>n. h = H n) (take LAST_TYPE internal_names) 0 = None"
    by (simp add: is_builtin_type_def)
  from a obtain j where j: "first_index (\<lambda>t. td_hash t = h) (typedefs P) 0 = Some j"
    and k: "k = int j + USER_BASE_SPACER_TYPEDEF"
    by (auto simp: is_typedef_def)
  from first_index_find [OF j]
  have f: "find (\<lambda>t. td_hash t = h) (typedefs P) = Some (typedefs P ! j)"
    by simp
  show "getRealType H P h =
        (let t = typedefs P ! nat (k - USER_BASE_SPACER_TYPEDEF) in
         if td_baseName t \<noteq> [] then
           Option.bind (getRealType H P (H (td_baseName t)))
             (\<lambda>r. Some (r\<lparr>td_type := td_type t, td_size := td_size t\<rparr>))
         else Some t)"
    by (subst getRealType.simps) (simp add: n f k Let_def)
qed

theorem C1_lookup_order_witness:
  "is_builtin_type example_hash (example_hash ''int'') = Some 1030 \<and>
   getType example_hash ex_session_int (example_hash ''int'') = 1030 \<and>
   is_builtin_type example_hash (example_hash ''T'') = None \<and>
   is_builtin_base example_hash (example_hash ''T'') = None \<and>
   is_typedef ex_session_T (example_hash ''T'') = Some 8192 \<and>
   is_struct ex_session_T (example_hash ''T'') = Some 16384 \<and>
   getType example_hash ex_session_T (example_hash ''T'') = 8192 \<and>
   getRealType example_hash ex_session_T (example_hash ''T'') =
     Some (Typedef_t_init\<lparr>td_hash := example_hash ''int32_t'', td_name := ''int32_t'',
             td_type := 1029\<rparr>)"
proof -
  have b: "is_builtin_type example_hash (example_hash ''int'') = Some 1030"
    by (simp add: is_builtin_type_def internal_names_def example_hash_def)
  have n: "is_builtin_type example_hash (example_hash ''T'') = None"
    by (simp add: is_builtin_type_def internal_names_def example_hash_def)
  have nb: "is_builtin_base example_hash (example_hash ''T'') = None"
    by (simp add: is_builtin_base_def internal_names_def example_hash_def)
  have t: "is_typedef ex_session_T (example_hash ''T'') = Some 8192"
    by (simp add: is_typedef_def ex_session_T_def IdlParser_init_def)
  have s: "is_struct ex_session_T (example_hash ''T'') = Some 16384"
    by (simp add: is_struct_def ex_session_T_def IdlParser_init_def)
  have i: "first_index (\<lambda>n. example_hash ''int32_t'' = example_hash n)
             (take LAST_TYPE internal_names) 0 = Some 5"
    by (simp add: internal_names_def example_hash_def)
  have g: "getRealType example_hash ex_session_T (example_hash ''int32_t'') =
      Some (Typedef_t_init\<lparr>td_hash := example_hash ''int32_t'', td_name := ''int32_t'',
              td_type := 1029\<rparr>)"
    using getRealType_builtin [OF i, of ex_session_T] by (simp add: internal_names_def)
  have e: "typedefs ex_session_T ! 0 =
      \<lparr>td_hash = example_hash ''T'', td_type = 1029, td_name = ''T'',
        td_baseName = ''int32_t'', td_nameSpace = [], td_size = - 1\<rparr>"
    by (simp add: ex_session_T_def IdlParser_init_def)
  from C1_lookup_order [of example_hash "example_hash ''int''" 1030 ex_session_int] b
  have 1: "getType example_hash ex_session_int (example_hash ''int'') = 1030" by simp
  from C1_lookup_order [of example_hash "example_hash ''T''" _ ex_session_T _ 8192] n nb t
  have 2: "getType example_hash ex_session_T (example_hash ''T'') = 8192"
    and 3: "getRealType example_hash ex_session_T (example_hash ''T'') =
        (let t = typedefs ex_session_T ! nat (8192 - USER_BASE_SPACER_TYPEDEF) in
         if td_baseName t \<noteq> [] then
           Option.bind (getRealType example_hash ex_session_T (example_hash (td_baseName t)))
             (\<lambda>r. Some (r\<lparr>td_type := td_type t, td_size := td_size t\<rparr>))
         else Some t)"
    by simp_all
  from 3 have 4: "getRealType example_hash ex_session_T (example_hash ''T'') =
     Some (Typedef_t_init\<lparr>td_hash := example_hash ''int32_t'', td_name := ''int32_t'',
             td_type := 1029\<rparr>)"
    by (simp add: e g Typedef_t_init_def)
  from b n nb t s 1 2 4 show ?thesis by simp
qed

section \<open>Properties of the declaration parser\<close>

lemma struct_statement_registry:
  "struct_statement H P name mar = Inr (vs, P1) \<Longrightarrow>
   structs P1 = structs P \<and> typedefs P1 = typedefs P \<and> nameSpace P1 = nameSpace P"
  by (auto simp: struct_statement_def parse_variable_def bindF_def Let_def
      split: if_splits option.splits prod.splits sum.splits)

lemma struct_fields_registry:
  "struct_fields H name s P flds = Inr (flds', P') \<Longrightarrow>
   structs P' = structs P \<and> typedefs P' = typedefs P \<and> nameSpace P' = nameSpace P"
proof (induction H name s P flds rule: struct_fields.induct)
  case (1 H name s P flds)
  show ?case
  proof (cases "s = []")
    case True
    with "1.prems" show ?thesis by (subst (asm) struct_fields.simps) simp
  next
    case False
    from "1.prems" False obtain variable n vs P1 where
      rb: "read_block s 4096 NUL (CHR '';'') = Inr (variable, n)" and
      ss: "struct_statement H P name (Explode variable (CHR '' '')) = Inr (vs, P1)" and
      rec: "struct_fields H name (drop (skip_spaces (drop n s)) (drop n s)) P1 (flds @ vs)
              = Inr (flds', P')"
      by (subst (asm) struct_fields.simps) (auto split: sum.splits)
    from "1.IH" [OF False rb refl ss refl rec] struct_statement_registry [OF ss]
    show ?thesis by simp
  qed
qed

lemma parse_typedef_nameSpace:
  "parse_typedef H P body = Inr P' \<Longrightarrow> nameSpace P' = nameSpace P"
  by (auto simp: parse_typedef_def bindF_def Let_def split: if_splits option.splits sum.splits)

lemma parse_struct_nameSpace:
  "parse_struct H P ty name body = Inr P' \<Longrightarrow> nameSpace P' = nameSpace P"
  by (auto simp: parse_struct_def bindF_def dest: struct_fields_registry split: sum.splits)

lemma parse_decl_nameSpace:
  "parse_decl H buf h s st = Inr (m, st1) \<Longrightarrow> nameSpace st1 = nameSpace st"
  by (auto simp: parse_decl_def bindF_def parse_variable_def Let_def
      dest: parse_typedef_nameSpace parse_struct_nameSpace
      split: if_splits option.splits sum.splits prod.splits)

lemma parse_loop_eq:
  assumes "k = skip_spaces s0" "pre1 = pre @ take k s0" "s = drop k s0"
    "l = rev (takeWhile (\<lambda>c. c \<noteq> NL) (rev pre1)) @ s"
    and "s0 \<noteq> []"
  shows "parse_loop H pre s0 st0 log =
     (case read_block l 1024 NUL NL of
           Inl f \<Rightarrow> Inl f
         | Inr (ln, ll) \<Rightarrow>
            (case s of
               [] \<Rightarrow> Inr (length pre1, st0\<lparr>line := ln\<rparr>, log)
             | c # cs \<Rightarrow>
                 if c = CHR '';'' then parse_loop H (pre1 @ [c]) cs (st0\<lparr>line := ln\<rparr>) log
                 else if c = CHR ''{'' then
                   (case parse_loop H [] cs (st0\<lparr>line := ln\<rparr>) [] of
                      Inl f \<Rightarrow> Inl f
                    | Inr (n, st1, log1) \<Rightarrow>
                        parse_loop H (pre1 @ c # take n cs) (drop n cs) st1 (log @ log1))
                 else if c = CHR ''}'' then Inr (Suc (length pre1), st0\<lparr>line := ln\<rparr>, log)
                 else
                   (case read_token (c # cs) 256 of
                      Inl f \<Rightarrow> Inl f
                    | Inr (buf, n) \<Rightarrow>
                        if buf = [] then Inr (length pre1 + n, st0\<lparr>line := ln\<rparr>, log)
                        else if is_module_token H (st0\<lparr>line := ln\<rparr>) (H buf) then
                          (case read_name (drop n (c # cs)) 1024 of
                             Inl f \<Rightarrow> Inl f
                           | Inr (name, m) \<Rightarrow>
                               (case parse_loop H [] (drop m (drop n (c # cs)))
                                       (st0\<lparr>line := ln, nameSpace := name\<rparr>) [] of
                                  Inl f \<Rightarrow> Inl f
                                | Inr (n2, st2, log2) \<Rightarrow>
                                    parse_loop H
                                      (pre1 @ take (n + m + n2) (c # cs))
                                      (drop n2 (drop m (drop n (c # cs)))) st2
                                      (log @ name # log2)))
                        else
                          (case parse_decl H buf (H buf) (drop n (c # cs)) (st0\<lparr>line := ln\<rparr>) of
                             Inl f \<Rightarrow> Inl f
                           | Inr (m, st1) \<Rightarrow>
                               parse_loop H (pre1 @ take (n + m) (c # cs))
                                 (drop m (drop n (c # cs))) st1 log))))"
  by (subst parse_loop.simps) (unfold Let_def assms(1-4) if_not_P [OF assms(5)], rule refl)

lemma parse_loop_nameSpace:
  "parse_loop H pre s0 st0 log = Inr (n, st', log') \<Longrightarrow>
   \<exists>ms. log' = log @ ms \<and> nameSpace st' = (if ms = [] then nameSpace st0 else last ms)"
proof (induction H pre s0 st0 log arbitrary: n st' log' rule: parse_loop.induct)
  case (1 H pre s0 st0 log)
  define k where "k = skip_spaces s0"
  define pre1 where "pre1 = pre @ take k s0"
  define s where "s = drop k s0"
  define l where "l = rev (takeWhile (\<lambda>c. c \<noteq> NL) (rev pre1)) @ s"
  show ?case
  proof (cases "s0 = []")
    case True
    with "1.prems" show ?thesis by (subst (asm) parse_loop.simps) auto
  next
  case ne0: False
  note eq = parse_loop_eq [OF k_def pre1_def s_def l_def ne0, of H st0 log]
  show ?thesis
  proof (cases "read_block l 1024 NUL NL")
    case (Inl f)
    with "1.prems" show ?thesis by (simp add: eq)
  next
    case (Inr p)
    obtain ln ll where p: "p = (ln, ll)" by (cases p)
    with Inr have rb: "read_block l 1024 NUL NL = Inr (ln, ll)" by simp
    define st where "st = st0\<lparr>line := ln\<rparr>"
    have ns: "nameSpace st = nameSpace st0" by (simp add: st_def)
    show ?thesis
    proof (cases s)
      case Nil
      with "1.prems" rb show ?thesis by (auto simp: eq)
    next
      case (Cons c cs)
      note IH = "1.IH" [OF ne0 k_def pre1_def s_def l_def rb refl st_def Cons]
      note unf = "1.prems" [unfolded eq rb Cons sum.case prod.case list.case, folded st_def]
      consider (semi) "c = CHR '';''" | (brace) "c = CHR ''{''" | (close) "c = CHR ''}''"
        | (tok) "c \<noteq> CHR '';''" "c \<noteq> CHR ''{''" "c \<noteq> CHR ''}''" by blast
      then show ?thesis
      proof cases
        case semi
        with unf have "parse_loop H (pre1 @ [c]) cs st log = Inr (n, st', log')" by simp
        from IH(1) [OF semi this] show ?thesis unfolding ns .
      next
        case brace
        then have nsemi: "c \<noteq> CHR '';''" by simp
        show ?thesis
        proof (cases "parse_loop H [] cs st []")
          case (Inl f)
          with unf brace show ?thesis by simp
        next
          case (Inr q)
          obtain n1 st1 log1 where q: "q = (n1, st1, log1)" by (cases q)
          with Inr have inner: "parse_loop H [] cs st [] = Inr (n1, st1, log1)" by simp
          with unf brace have outer:
            "parse_loop H (pre1 @ c # take n1 cs) (drop n1 cs) st1 (log @ log1)
               = Inr (n, st', log')" by simp
          from IH(2) [OF nsemi brace inner]
          have i: "nameSpace st1 = (if log1 = [] then nameSpace st else last log1)" by simp
          from IH(3) [OF nsemi brace inner refl refl outer] obtain ms where
            o: "log' = (log @ log1) @ ms"
            "nameSpace st' = (if ms = [] then nameSpace st1 else last ms)" by blast
          from i o ns show ?thesis by (intro exI [of _ "log1 @ ms"]) simp
        qed
      next
        case close
        with unf ns show ?thesis by auto
      next
        case tok
        show ?thesis
        proof (cases "read_token (c # cs) 256")
          case (Inl f)
          with unf tok show ?thesis by simp
        next
          case (Inr q)
          obtain buf nt where q: "q = (buf, nt)" by (cases q)
          with Inr have rt: "read_token (c # cs) 256 = Inr (buf, nt)" by simp
          show ?thesis
          proof (cases "buf = []")
            case True
            with unf tok rt ns show ?thesis by auto
          next
            case ne: False
            show ?thesis
            proof (cases "is_module_token H st (H buf)")
              case True
              show ?thesis
              proof (cases "read_name (drop nt (c # cs)) 1024")
                case (Inl f)
                with unf tok rt ne True show ?thesis by simp
              next
                case (Inr r)
                obtain name m where r: "r = (name, m)" by (cases r)
                with Inr have rn: "read_name (drop nt (c # cs)) 1024 = Inr (name, m)" by simp
                show ?thesis
                proof (cases "parse_loop H [] (drop m (drop nt (c # cs)))
                                (st\<lparr>nameSpace := name\<rparr>) []")
                  case (Inl f)
                  with unf tok rt ne True rn show ?thesis by (simp add: st_def)
                next
                  case (Inr u)
                  obtain n2 st2 log2 where u: "u = (n2, st2, log2)" by (cases u)
                  with Inr have inner:
                    "parse_loop H [] (drop m (drop nt (c # cs))) (st\<lparr>nameSpace := name\<rparr>) []
                       = Inr (n2, st2, log2)" by simp
                  with unf tok rt ne True rn have outer:
                    "parse_loop H (pre1 @ take (nt + m + n2) (c # cs))
                       (drop n2 (drop m (drop nt (c # cs)))) st2 (log @ name # log2)
                       = Inr (n, st', log')" by (simp add: st_def)
                  from IH(4) [OF tok rt refl ne True rn refl inner]
                  have i: "nameSpace st2 = (if log2 = [] then name else last log2)" by simp
                  from IH(5) [OF tok rt refl ne True rn refl inner refl refl outer]
                  obtain ms where
                    o: "log' = (log @ name # log2) @ ms"
                    "nameSpace st' = (if ms = [] then nameSpace st2 else last ms)" by blast
                  from i o show ?thesis by (intro exI [of _ "name # log2 @ ms"]) simp
                qed
              qed
            next
              case False
              show ?thesis
              proof (cases "parse_decl H buf (H buf) (drop nt (c # cs)) st")
                case (Inl f)
                with unf tok rt ne False show ?thesis by simp
              next
                case (Inr r)
                obtain m st1 where r: "r = (m, st1)" by (cases r)
                with Inr have pd: "parse_decl H buf (H buf) (drop nt (c # cs)) st = Inr (m, st1)"
                  by simp
                with unf tok rt ne False have outer:
                  "parse_loop H (pre1 @ take (nt + m) (c # cs)) (drop m (drop nt (c # cs)))
                     st1 log = Inr (n, st', log')" by simp
                from parse_decl_nameSpace [OF pd] ns have ns1: "nameSpace st1 = nameSpace st0"
                  by simp
                from IH(6) [OF tok rt refl ne False pd refl outer]
                show ?thesis unfolding ns1 .
              qed
            qed
          qed
        qed
      qed
    qed
  qed
  qed
qed

subsection \<open>Evaluation on concrete text\<close>

lemma struct_fields_Nil: "struct_fields H name [] P flds = Inr (flds, P)"
  by (subst struct_fields.simps) simp

lemma struct_fields_Cons:
  "struct_fields H name (c # cs) P flds =
     (case read_block (c # cs) 4096 NUL (CHR '';'') of
           Inl f \<Rightarrow> Inl f
         | Inr (variable, n) \<Rightarrow>
             (case struct_statement H P name (Explode variable (CHR '' '')) of
                Inl f \<Rightarrow> Inl f
              | Inr (vs, P1) \<Rightarrow>
                  struct_fields H name (drop (skip_spaces (drop n (c # cs))) (drop n (c # cs))) P1
                    (flds @ vs)))"
  by (subst struct_fields.simps) simp

lemma parse_loop_Nil: "parse_loop H pre [] st0 log = Inr (length pre, st0, log)"
  by (subst parse_loop.simps) simp

lemmas parse_loop_Cons = parse_loop.simps [of _ _ "c # cs" for c cs]

lemmas idl_defs = parse_def parse_decl_def parse_struct_def struct_statement_def parse_variable_def
  parse_typedef_def remove_namespace_def read_block_def read_name_def read_token_def
  skip_spaces_def expect_symbol_def is_module_token_def is_builtin_type_def is_builtin_base_def
  is_user_base_def is_typedef_def is_struct_def getBase_def bindF_def nth_f_def type2Name_def
  Explode_def basename_def is_name_char_def isalpha_def isdigit_def internal_names_def
  IdlParser_init_def ifdef_def Let_def

lemmas idl_eval = idl_defs struct_fields_Cons struct_fields_Nil parse_loop_Cons parse_loop_Nil
  getRealType.simps

lemma example_hash_snoc: "example_hash (s @ [c]) = example_hash s * 256 + of_char c"
  by (simp add: example_hash_def)

lemma example_hash_pos: "0 < example_hash s"
  by (induction s rule: rev_induct) (simp_all add: example_hash_def)

lemma example_hash_eq: "example_hash a = example_hash b \<longleftrightarrow> a = b"
proof
  show "example_hash a = example_hash b \<Longrightarrow> a = b"
  proof (induction a arbitrary: b rule: rev_induct)
    case Nil
    show ?case
    proof (cases b rule: rev_cases)
      case Nil
      then show ?thesis by simp
    next
      case (snoc bs c)
      with Nil example_hash_pos [of bs] show ?thesis
        by (simp add: example_hash_snoc) (simp add: example_hash_def)
    qed
  next
    case (snoc x xs)
    show ?case
    proof (cases b rule: rev_cases)
      case Nil
      with snoc.prems example_hash_pos [of xs] show ?thesis
        by (simp add: example_hash_snoc) (simp add: example_hash_def)
    next
      case (snoc bs c)
      have lx: "(of_char x :: nat) < 256" and lc: "(of_char c :: nat) < 256" by simp_all
      from snoc snoc.prems
      have e: "example_hash xs * 256 + of_char x = example_hash bs * 256 + of_char c"
        by (simp add: example_hash_snoc)
      from e lx lc have 1: "example_hash xs = example_hash bs" by arith
      with e have 2: "(of_char x :: nat) = of_char c" by simp
      from 1 snoc.IH have "xs = bs" by simp
      moreover from 2 have "x = c" by simp
      ultimately show ?thesis using snoc by simp
    qed
  qed
qed simp

lemma inj_example_hash: "inj example_hash"
  by (rule injI) (simp add: example_hash_eq)

lemma parse_alias_chain:
  assumes "inj H"
  shows "parse H ''typedef uint32_t A; typedef A B; struct S { B f; };'' IdlParser_init =
           Inr (51, ex_alias_session H, [])"
  by (simp add: idl_eval inj_eq [OF assms] ex_alias_session_def ex_alias_type_def
      Typedef_t_init_def)

text \<open>
  C5 (amended). For the input \<^verbatim>\<open>typedef uint32_t A; typedef A B; struct S { B f; };\<close>
  and any hash function without collisions, the parser registers \<open>A\<close>, \<open>B\<close> and \<open>S\<close>,
  and the type of field \<open>f\<close>, which is what \<open>getRealType\<close> gives for \<open>B\<close>, is an entry
  whose name field is \<open>uint32_t\<close> and whose base-name field is empty (both taken over from
  the builtin entry at the end of the alias chain), while its type code and bound are those
  stored for the typedef \<open>B\<close>: code 8192, the first typedef slot, not the builtin code 1036 of
  \<open>uint32_t\<close>, and bound \<open>-1\<close>.
\<close>

theorem C5_alias_chain_resolution:
  assumes "inj H"
  shows "parse H ''typedef uint32_t A; typedef A B; struct S { B f; };'' IdlParser_init =
           Inr (51, ex_alias_session H, []) \<and>
         map v_type (s_fields (structs (ex_alias_session H) ! 0)) = [ex_alias_type H] \<and>
         getRealType H (ex_alias_session H) (H ''B'') = Some (ex_alias_type H) \<and>
         td_name (ex_alias_type H) = ''uint32_t'' \<and>
         td_baseName (ex_alias_type H) = [] \<and>
         td_type (ex_alias_type H) = td_type (typedefs (ex_alias_session H) ! 1) \<and>
         td_size (ex_alias_type H) = td_size (typedefs (ex_alias_session H) ! 1) \<and>
         td_name (typedefs (ex_alias_session H) ! 1) = ''B'' \<and>
         is_builtin_type H (H ''uint32_t'') = Some 1036 \<and>
         td_type (ex_alias_type H) = 8192"
proof -
  have "getRealType H (ex_alias_session H) (H ''B'') = Some (ex_alias_type H)"
    by (simp add: getRealType.simps internal_names_def inj_eq [OF assms] ex_alias_session_def
        ex_alias_type_def IdlParser_init_def Typedef_t_init_def)
  moreover have "is_builtin_type H (H ''uint32_t'') = Some 1036"
    by (simp add: is_builtin_type_def internal_names_def inj_eq [OF assms])
  ultimately show ?thesis
    using parse_alias_chain [OF assms]
    by (simp add: ex_alias_session_def ex_alias_type_def IdlParser_init_def)
qed

text \<open>C5 (witness): the hash of the examples has no collisions.\<close>

theorem C5_alias_chain_resolution_witness:
  "inj example_hash \<and>
   parse example_hash ''typedef uint32_t A; typedef A B; struct S { B f; };'' IdlParser_init =
     Inr (51, ex_alias_session example_hash, []) \<and>
   getRealType example_hash (ex_alias_session example_hash) (example_hash ''B'') =
     Some (ex_alias_type example_hash) \<and>
   td_name (ex_alias_type example_hash) = ''uint32_t'' \<and>
   td_type (ex_alias_type example_hash) = 8192"
  using C5_alias_chain_resolution [OF inj_example_hash] inj_example_hash by simp

text \<open>
  C5 (counterexample). On that input the resolved entry of field \<open>f\<close> has an empty
  base-name field: the base name is not the printed name of \<open>uint32_t\<close>, which is in the
  name field.
\<close>

theorem C5_base_name_is_empty:
  "parse example_hash ''typedef uint32_t A; typedef A B; struct S { B f; };'' IdlParser_init =
     Inr (51, ex_alias_session example_hash, []) \<and>
   map v_type (s_fields (structs (ex_alias_session example_hash) ! 0)) =
     [ex_alias_type example_hash] \<and>
   td_baseName (ex_alias_type example_hash) \<noteq> ''uint32_t''"
  using parse_alias_chain [OF inj_example_hash]
  by (simp add: ex_alias_session_def ex_alias_type_def IdlParser_init_def)

text \<open>
  C6 (the code at the failing input). After \<^verbatim>\<open>typedef int32_t T;\<close> the struct
  \<^verbatim>\<open>S { @key ns::T f; ns::T g; }\<close> is parsed. The two-token statement strips the
  qualification: \<open>g\<close> has type \<open>int32_t\<close> through \<open>T\<close> and namespace \<open>ns\<close>. The
  three-token statement passes \<^verbatim>\<open>@key\<close> to \<^verbatim>\<open>remove_namespace\<close> instead of the
  type: \<open>f\<close> has its key flag set, but its type is hashed with the qualification on and is
  unresolved, and no namespace is recorded.
\<close>

theorem C6_key_type_keeps_qualification:
  "parse example_hash ''typedef int32_t T; struct S { @key ns::T f; ns::T g; };''
     IdlParser_init = Inr (55, ex_key_session, []) \<and>
   map v_is_key ex_key_fields = [True, False] \<and>
   map v_fromNamespace ex_key_fields = [[], ''ns''] \<and>
   map v_type ex_key_fields =
     [Typedef_t_init,
      \<lparr>td_hash = example_hash ''int32_t'', td_type = 1029, td_name = ''int32_t'',
        td_baseName = [], td_nameSpace = [], td_size = - 1\<rparr>]"
  by (simp add: idl_eval example_hash_eq ex_key_session_def ex_key_fields_def Typedef_t_init_def)

text \<open>
  C7 (amended). When a call of \<^verbatim>\<open>parse\<close> returns, the namespace string is the name of
  the last module statement the call has entered, and it is unchanged when the call has
  entered none: entering a module overwrites the namespace and nothing restores it. So
  after a module block that declares no further module the namespace is that module's
  name, and after a block with modules inside it is the name of the last of those.
\<close>

theorem C7_namespace_is_last_module:
  assumes "parse H src st = Inr (n, st', ms)"
  shows "nameSpace st' = (if ms = [] then nameSpace st else last ms)"
  using parse_loop_nameSpace [of H "[]" src st "[]" n st' ms] assms
  by (simp add: parse_def)

text \<open>
  C7 (witness). Module \<open>B\<close> is nested in \<open>A\<close> and holds no module: the struct declared
  in \<open>A\<close> after \<open>B\<close> has closed is registered under \<open>B\<close>.
\<close>

theorem C7_namespace_is_last_module_witness:
  "parse example_hash ''module A { module B { }; struct T { int32_t y; }; };'' IdlParser_init =
     Inr (52, ex_module_session ''module B { }; struct T { int32_t y; }; };'' ''B'',
          [''A'', ''B'']) \<and>
   nameSpace (ex_module_session ''module B { }; struct T { int32_t y; }; };'' ''B'') =
     last [''A'', ''B'']"
proof -
  have p: "parse example_hash ''module A { module B { }; struct T { int32_t y; }; };''
       IdlParser_init =
     Inr (52, ex_module_session ''module B { }; struct T { int32_t y; }; };'' ''B'',
          [''A'', ''B''])"
    by (simp add: idl_eval example_hash_eq ex_module_session_def ex_int32_field_def
        Typedef_t_init_def)
  from C7_namespace_is_last_module [OF p] p show ?thesis by simp
qed

text \<open>
  C7 (counterexample). Module \<open>B\<close> is nested in \<open>A\<close> and holds module \<open>C\<close>. After the
  block of \<open>B\<close> has closed, the struct declared in \<open>A\<close> is registered under \<open>C\<close>: the
  namespace is not the value set when \<open>B\<close> was entered.
\<close>

theorem C7_inner_module_name_survives:
  "parse example_hash ''module A { module B { module C { }; }; struct T { int32_t y; }; };''
     IdlParser_init =
     Inr (66, ex_module_session ''{ module C { }; }; struct T { int32_t y; }; };'' ''C'',
          [''A'', ''B'', ''C'']) \<and>
   map s_nameSpace
     (structs (ex_module_session ''{ module C { }; }; struct T { int32_t y; }; };'' ''C'')) =
     [''C''] \<and>
   nameSpace (ex_module_session ''{ module C { }; }; struct T { int32_t y; }; };'' ''C'') \<noteq>
     ''B''"
  by (simp add: idl_eval example_hash_eq ex_module_session_def ex_int32_field_def
      Typedef_t_init_def)




section \<open>Properties of minification\<close>

lemma contains_append: "contains pat b \<Longrightarrow> contains pat (a @ b)"
proof (induction a)
  case Nil
  then show ?case by simp
next
  case (Cons x a)
  then show ?case by simp
qed

lemma plain_append: "plain (a @ b) \<Longrightarrow> plain b"
  by (auto simp: plain_def dest: contains_append)

lemma plain_Cons: "plain (c # cs) \<Longrightarrow> plain cs"
  using plain_append [of "[c]" cs] by simp

lemma plain_head:
  "plain (c # cs) \<Longrightarrow>
   c \<noteq> TAB \<and> c \<noteq> CR \<and> \<not> (c = CHR ''/'' \<and> take 1 cs = ''/'') \<and>
   \<not> (c = CHR ''/'' \<and> take 1 cs = ''*'')"
  by (cases cs) (auto simp: plain_def)

lemma str_body_split: "str_body prev s = (a, r) \<Longrightarrow> s = a @ r"
  by (induction prev s arbitrary: a r rule: str_body.induct)
    (auto split: if_splits prod.splits)

lemma str_body_again:
  "str_body prev s = (a, r) \<Longrightarrow> take 1 t = take 1 r \<Longrightarrow> str_body prev (a @ t) = (a, t)"
proof (induction prev s arbitrary: a r rule: str_body.induct)
  case (1 prev)
  then show ?case by (cases t) simp_all
next
  case (2 prev c cs)
  show ?case
  proof (cases "c \<noteq> DQ \<or> prev = BSL")
    case True
    with "2.prems" obtain a' where a: "a = c # a'" and b: "str_body c cs = (a', r)"
      by (auto split: prod.splits)
    from "2.IH" [OF True b "2.prems"(2)] a True show ?thesis by simp
  next
    case False
    with "2.prems" have a: "a = []" and r: "r = c # cs" by auto
    with "2.prems"(2) obtain t' where "t = c # t'" by (cases t) auto
    with a False show ?thesis by simp
  qed
qed

lemma minify_plain:
  "plain x \<Longrightarrow> \<exists>y. minify_code x = Inr y \<and> take 1 y = take 1 x \<and> minify_code y = Inr y"
proof (induction x rule: minify_code.induct)
  case 1
  show ?case by simp
next
  case (2 c cs)
  note h = plain_head [OF "2.prems"]
  from h have nc1: "\<not> (c = CHR ''/'' \<and> take 1 cs = ''/'')"
    and nc2: "\<not> (c = CHR ''/'' \<and> take 1 cs = ''*'')"
    and ncr: "c \<noteq> CR" and ntab: "c \<noteq> TAB" by simp_all
  have pcs: "plain cs" by (rule plain_Cons [OF "2.prems"])
  show ?case
  proof (cases "c = DQ")
    case True
    obtain a r where sb: "str_body c cs = (a, r)" by (cases "str_body c cs")
    show ?thesis
    proof (cases r)
      case Nil
      from str_body_again [OF sb, of "[]"] Nil have "str_body c a = (a, [])" by simp
      with True sb Nil show ?thesis by simp
    next
      case (Cons q r')
      from str_body_split [OF sb] Cons have cs: "cs = a @ q # r'" by simp
      with pcs plain_append [of "a @ [q]" r'] have "plain r'" by simp
      from "2.IH"(3) [OF nc1 nc2 True sb [symmetric] Cons this]
      obtain y where y: "minify_code r' = Inr y" "minify_code y = Inr y" by blast
      from str_body_again [OF sb, of "q # y"] Cons have "str_body c (a @ q # y) = (a, q # y)"
        by simp
      with True sb Cons y show ?thesis by simp
    qed
  next
    case ndq: False
    show ?thesis
    proof (cases "(c = CHR '' '' \<and> take 1 cs = '' '') \<or> (c = NL \<and> take 1 cs = [NL])")
      case True
      then have "minify_code (c # cs) = minify_code cs"
        using nc1 nc2 ndq ncr ntab by auto
      moreover from True have "take 1 cs = take 1 (c # cs)" by auto
      moreover from True "2.IH"(6,7) [OF nc1 nc2 ndq ncr ntab] pcs
      have "\<exists>y. minify_code cs = Inr y \<and> take 1 y = take 1 cs \<and> minify_code y = Inr y"
        by (cases "c = CHR '' ''") auto
      ultimately show ?thesis by simp
    next
      case False
      then have sp: "\<not> (c = CHR '' '' \<and> take 1 cs = '' '')"
        and nl: "\<not> (c = NL \<and> take 1 cs = [NL])" by simp_all
      from "2.IH"(8) [OF nc1 nc2 ndq ncr ntab sp nl pcs] obtain y where
        y: "minify_code cs = Inr y" "take 1 y = take 1 cs" "minify_code y = Inr y" by blast
      from y(1) nc1 nc2 ndq ncr ntab sp nl have 1: "minify_code (c # cs) = Inr (c # y)" by auto
      from nc1 nc2 sp nl have "\<not> (c = CHR ''/'' \<and> take 1 y = ''/'')"
        "\<not> (c = CHR ''/'' \<and> take 1 y = ''*'')" "\<not> (c = CHR '' '' \<and> take 1 y = '' '')"
        "\<not> (c = NL \<and> take 1 y = [NL])" unfolding y(2) by simp_all
      with y(3) ndq ncr ntab have 2: "minify_code (c # y) = Inr (c # y)" by auto
      from 1 2 show ?thesis by simp
    qed
  qed
qed

text \<open>
  C9 (counterexample). Two tabs become two spaces, and the two spaces become one on the
  second pass: every tab is turned into a space by itself, and only a space that is followed
  by a space in the input is dropped.
\<close>

theorem C9_two_tabs_need_two_passes:
  "minify_code [TAB, TAB] = Inr ''  '' \<and> minify_code ''  '' = Inr '' '' \<and>
   minify_code ''  '' \<noteq> Inr ''  ''"
  by simp

text \<open>
  C9 (amended). On every text that contains no tab, no carriage return and neither of the
  comment openers \<^verbatim>\<open>//\<close> and \<^verbatim>\<open>/*\<close>, minification succeeds and is idempotent:
  applied to its own output it returns that output unchanged.
\<close>

theorem C9_minify_idempotent_on_plain_text:
  assumes "TAB \<notin> set x" and "CR \<notin> set x"
    and "\<not> contains ''//'' x" and "\<not> contains ''/*'' x"
  shows "\<exists>y. minify_code x = Inr y \<and> minify_code y = Inr y"
  using minify_plain [of x] assms by (auto simp: plain_def)

theorem C9_minify_idempotent_on_plain_text_witness:
  \<open>TAB \<notin> set ''int   x;  char c = "a  b";'' \<and> CR \<notin> set ''int   x;  char c = "a  b";'' \<and>
   \<not> contains ''//'' ''int   x;  char c = "a  b";'' \<and>
   \<not> contains ''/*'' ''int   x;  char c = "a  b";'' \<and>
   minify_code ''int   x;  char c = "a  b";'' = Inr ''int x; char c = "a  b";'' \<and>
   minify_code ''int x; char c = "a  b";'' = Inr ''int x; char c = "a  b";'' \<and>
   (\<exists>y. minify_code ''int   x;  char c = "a  b";'' = Inr y \<and> minify_code y = Inr y)\<close>
proof -
  have h: \<open>TAB \<notin> set ''int   x;  char c = "a  b";''\<close>
    \<open>CR \<notin> set ''int   x;  char c = "a  b";''\<close>
    \<open>\<not> contains ''//'' ''int   x;  char c = "a  b";''\<close>
    \<open>\<not> contains ''/*'' ''int   x;  char c = "a  b";''\<close>
    by simp_all
  from C9_minify_idempotent_on_plain_text [OF h] h show ?thesis by simp
qed

section \<open>Properties of the preprocessor\<close>

subsection \<open>Evaluation on concrete text\<close>

lemma pp_loop_Nil: "pp_rest st = [] \<Longrightarrow> pp_loop inc name st = Inr st"
  by (subst pp_loop.simps) simp

lemma pp_loop_Cons:
  "pp_rest st \<noteq> [] \<Longrightarrow>
   pp_loop inc name st =
     (case pp_step inc name st of Inl f \<Rightarrow> Inl f | Inr st1 \<Rightarrow> pp_loop inc name st1)"
  by (subst pp_loop.simps) simp

lemmas pp_eval = preprocessor_buf_def pp_start_def pp_loop_Nil pp_loop_Cons pp_step_def
  pp_directive_def pp_char_def substitute_def refresh_defines_def define_name_def undef_def
  ifdef_def is_delim_def delimiters_def no_includes_def bindF_def Let_def
  read_block_def read_name_def read_token_def skip_spaces_def get_symbol_def
  is_name_char_def isalpha_def isdigit_def IdlParser_init_def

lemma dec_digits: "dec 0 = ''0''" "dec (Suc 0) = ''1''" "dec (Suc (Suc 0)) = ''2''"
  by (simp_all add: dec.simps)

subsection \<open>The stack of conditions\<close>

lemma scan_stack_all: "scan_stack stk = (if \<forall>v\<in>set stk. v \<noteq> 0 then 1 else 0)"
  by (induction stk) auto

lemma bindF_Inr:
  "bindF m f = Inr y \<longleftrightarrow> (\<exists>x. m = Inr x \<and> f x = Inr y)"
  by (cases m) (simp_all add: bindF_def)

lemma not_Released: "b \<noteq> Released \<longleftrightarrow> (\<exists>t. b = Text t)"
  by (cases b) auto

lemma pp_directive_effect:
  assumes "pp_directive inc st = Inr (k, st')"
  shows "\<exists>buf n. read_token (drop 1 (pp_rest st)) 256 = Inr (buf, n) \<and>
     (buf = ''ifdef'' \<longrightarrow>
        (\<exists>nm m. read_name (drop n (drop 1 (pp_rest st))) 256 = Inr (nm, m) \<and>
           pp_stack st' =
             pp_stack st @ [if ifdef (defines_map (pp_session st)) nm then 1 else 0])) \<and>
     (buf = ''ifndef'' \<longrightarrow>
        (\<exists>nm m. read_name (drop n (drop 1 (pp_rest st))) 256 = Inr (nm, m) \<and>
           pp_stack st' =
             pp_stack st @ [if ifdef (defines_map (pp_session st)) nm then 0 else 1])) \<and>
     (buf = ''else'' \<longrightarrow> pp_stack st \<noteq> [] \<and>
        pp_stack st' = butlast (pp_stack st) @ [if last (pp_stack st) = 0 then 1 else 0]) \<and>
     (buf = ''endif'' \<longrightarrow> pp_stack st \<noteq> [] \<and> pp_stack st' = butlast (pp_stack st)) \<and>
     (buf \<noteq> ''ifdef'' \<and> buf \<noteq> ''ifndef'' \<and> buf \<noteq> ''else'' \<and> buf \<noteq> ''endif'' \<longrightarrow>
        pp_stack st' = pp_stack st) \<and>
     (buf \<noteq> ''ifdef'' \<and> buf \<noteq> ''ifndef'' \<and> buf \<noteq> ''else'' \<and> buf \<noteq> ''endif'' \<longrightarrow>
        pp_define_ok st' = pp_define_ok st) \<and>
     (buf = ''ifdef'' \<or> buf = ''ifndef'' \<or> buf = ''else'' \<or> buf = ''endif'' \<longrightarrow>
        pp_define_ok st' = scan_stack (pp_stack st')) \<and>
     (pp_define_ok st = 0 \<longrightarrow>
        pp_out st' = pp_out st \<and>
        defines_map (pp_session st') = defines_map (pp_session st))"
proof -
  from assms obtain ln ll where
    rb: "read_block (pp_rest st) 1024 NUL NL = Inr (ln, ll)"
    unfolding pp_directive_def by (auto simp: bindF_Inr)
  from assms rb obtain buf n where
    rt: "read_token (drop 1 (pp_rest st)) 256 = Inr (buf, n)"
    unfolding pp_directive_def by (auto simp: bindF_Inr)
  consider "buf = ''ifdef''" | "buf = ''ifndef''" | "buf = ''else''" | "buf = ''endif''"
    | "buf = ''elif''" | "buf = ''if''" | "buf = ''define''" | "buf = ''undef''"
    | "buf = ''pragma''" | "buf = ''include''"
    | "buf \<noteq> ''ifdef''" "buf \<noteq> ''ifndef''" "buf \<noteq> ''else''" "buf \<noteq> ''endif''"
      "buf \<noteq> ''elif''" "buf \<noteq> ''if''" "buf \<noteq> ''define''" "buf \<noteq> ''undef''"
      "buf \<noteq> ''pragma''" "buf \<noteq> ''include''"
    by blast
  then show ?thesis
  proof cases
    case 1
    with assms rb rt show ?thesis
      unfolding pp_directive_def Let_def by (auto simp: bindF_Inr)
  next
    case 2
    with assms rb rt show ?thesis
      unfolding pp_directive_def Let_def by (auto simp: bindF_Inr)
  next
    case 3
    with assms rb rt show ?thesis
      unfolding pp_directive_def Let_def by (auto simp: bindF_Inr split: if_splits)
  next
    case 4
    with assms rb rt show ?thesis
      unfolding pp_directive_def Let_def by (auto simp: bindF_Inr split: if_splits)
  next
    case 5
    with assms rb rt show ?thesis
      unfolding pp_directive_def Let_def by (auto simp: bindF_Inr)
  next
    case 6
    with assms rb rt show ?thesis
      unfolding pp_directive_def Let_def by (auto simp: bindF_Inr)
  next
    case 7
    with assms rb rt show ?thesis
      unfolding pp_directive_def Let_def
      by (cases "pp_define_ok st = 0") (auto simp: bindF_Inr split: if_splits)
  next
    case 8
    with assms rb rt show ?thesis
      unfolding pp_directive_def Let_def
      by (cases "pp_define_ok st = 0") (auto simp: bindF_Inr)
  next
    case 9
    with assms rb rt show ?thesis
      unfolding pp_directive_def Let_def by (auto simp: bindF_Inr)
  next
    case 10
    with assms rb rt show ?thesis
      unfolding pp_directive_def Let_def
      by (auto simp: bindF_Inr not_Released split: if_splits buffer.splits)
  next
    case 11
    with assms rb rt show ?thesis
      unfolding pp_directive_def Let_def by (simp add: bindF_def)
  qed
qed

lemma pp_char_effect:
  assumes "pp_char name st = Inr (k, st')"
  shows "pp_stack st' = pp_stack st \<and> pp_define_ok st' = pp_define_ok st \<and>
         (pp_define_ok st = 0 \<longrightarrow> pp_out st' = pp_out st)"
  using assms unfolding pp_char_def Let_def
  by (auto split: list.splits if_splits prod.splits)

lemma pp_step_split:
  assumes "pp_step inc name st = Inr st'"
  obtains (directive) k st2 l where "take 1 (pp_rest st) = ''#''"
      "pp_directive inc (st\<lparr>pp_current_line := l\<rparr>) = Inr (k, st2)"
      "st' = st2\<lparr>pp_rest := drop (Suc k) (pp_rest st)\<rparr>"
    | (char) k st2 l where "take 1 (pp_rest st) \<noteq> ''#''"
      "pp_char name (st\<lparr>pp_current_line := l\<rparr>) = Inr (k, st2)"
      "st' = st2\<lparr>pp_rest := drop (Suc k) (pp_rest st)\<rparr>"
proof -
  define l where "l = (if take 1 (pp_rest st) = [NL] then Suc (pp_current_line st)
                       else pp_current_line st)"
  have st1: "(if take 1 (pp_rest st) = [NL]
              then st\<lparr>pp_current_line := Suc (pp_current_line st)\<rparr> else st) =
             st\<lparr>pp_current_line := l\<rparr>"
    by (simp add: l_def)
  show thesis
  proof (cases "take 1 (pp_rest st) = ''#''")
    case True
    with assms st1 obtain k st2 where
      "pp_directive inc (st\<lparr>pp_current_line := l\<rparr>) = Inr (k, st2)"
      "st' = st2\<lparr>pp_rest := drop (Suc k) (pp_rest st)\<rparr>"
      unfolding pp_step_def Let_def by (auto split: sum.splits)
    with True show thesis by (rule directive)
  next
    case False
    with assms st1 obtain k st2 where
      "pp_char name (st\<lparr>pp_current_line := l\<rparr>) = Inr (k, st2)"
      "st' = st2\<lparr>pp_rest := drop (Suc k) (pp_rest st)\<rparr>"
      unfolding pp_step_def Let_def by (auto split: sum.splits)
    with False show thesis by (rule char)
  qed
qed

lemma pp_step_inv:
  assumes "pp_step inc name st = Inr st'"
    and "pp_define_ok st = scan_stack (pp_stack st)"
  shows "pp_define_ok st' = scan_stack (pp_stack st')"
  using assms(1)
proof (cases rule: pp_step_split)
  case (directive k st2 l)
  from pp_directive_effect [OF directive(2)] assms(2) directive(3) show ?thesis
    by auto
next
  case (char k st2 l)
  from pp_char_effect [OF char(2)] assms(2) char(3) show ?thesis by simp
qed

lemma pp_reaches_inv:
  assumes "pp_reaches inc name a st" and "pp_define_ok a = scan_stack (pp_stack a)"
  shows "pp_define_ok st = scan_stack (pp_stack st)"
  using assms by (induction rule: pp_reaches.induct) (auto dest: pp_step_inv)


lemma pp_step_stack_char:
  assumes "pp_step inc name st = Inr st'" and "take 1 (pp_rest st) \<noteq> ''#''"
  shows "pp_stack st' = pp_stack st"
  using assms(1)
proof (cases rule: pp_step_split)
  case (directive k st2 l)
  with assms(2) show ?thesis by simp
next
  case (char k st2 l)
  from pp_char_effect [OF char(2)] char(3) show ?thesis by simp
qed
lemma pp_step_stack_directive:
  assumes "pp_step inc name st = Inr st'" and "take 1 (pp_rest st) = ''#''"
  shows "\<exists>buf n. read_token (drop 1 (pp_rest st)) 256 = Inr (buf, n) \<and>
             (buf = ''ifdef'' \<longrightarrow>
                (\<exists>nm m. read_name (drop n (drop 1 (pp_rest st))) 256 = Inr (nm, m) \<and>
                   pp_stack st' =
                     pp_stack st @ [if ifdef (defines_map (pp_session st)) nm then 1 else 0])) \<and>
             (buf = ''ifndef'' \<longrightarrow>
                (\<exists>nm m. read_name (drop n (drop 1 (pp_rest st))) 256 = Inr (nm, m) \<and>
                   pp_stack st' =
                     pp_stack st @ [if ifdef (defines_map (pp_session st)) nm then 0 else 1])) \<and>
             (buf = ''else'' \<longrightarrow> pp_stack st \<noteq> [] \<and>
                pp_stack st' =
                  butlast (pp_stack st) @ [if last (pp_stack st) = 0 then 1 else 0]) \<and>
             (buf = ''endif'' \<longrightarrow> pp_stack st \<noteq> [] \<and> pp_stack st' = butlast (pp_stack st)) \<and>
             (buf \<noteq> ''ifdef'' \<and> buf \<noteq> ''ifndef'' \<and> buf \<noteq> ''else'' \<and> buf \<noteq> ''endif'' \<longrightarrow>
                pp_stack st' = pp_stack st)"
  using assms(1)
proof (cases rule: pp_step_split)
  case (directive k st2 l)
  from pp_directive_effect [OF directive(2)] directive(3) show ?thesis
    apply (simp split del: if_split)
    apply (elim exE conjE)
    apply (intro exI conjI)
    apply assumption
    apply assumption
    apply assumption
    apply assumption
    apply assumption
    apply assumption
    done
next
  case (char k st2 l)
  with assms(2) show ?thesis by simp
qed
lemma pp_step_disabled:
  assumes "pp_step inc name st = Inr st'" and "pp_define_ok st = 0"
  shows "pp_out st' = pp_out st \<and>
         (take 1 (pp_rest st) = ''#'' \<longrightarrow>
            defines_map (pp_session st') = defines_map (pp_session st))"
  using assms(1)
proof (cases rule: pp_step_split)
  case (directive k st2 l)
  from pp_directive_effect [OF directive(2)] assms(2)
  have "pp_out st2 = pp_out st \<and> defines_map (pp_session st2) = defines_map (pp_session st)"
    by (elim exE conjE) simp
  with directive(3) show ?thesis by simp
next
  case (char k st2 l)
  from pp_char_effect [OF char(2)] assms(2) char(1,3) show ?thesis by simp
qed


text \<open>
  C3. In every state that the loop of \<^verbatim>\<open>preprocessor\<close> passes through, \<^verbatim>\<open>define_ok\<close> is
  1 when no entry of the stack of conditions is 0 (in particular when the stack is empty)
  and 0 otherwise. One more pass through the loop leaves the stack as it is unless the
  byte read is \<^verbatim>\<open>#\<close>; then \<^verbatim>\<open>#ifdef NAME\<close> appends 1 when \<^verbatim>\<open>NAME\<close> is defined and 0 when
  not, \<^verbatim>\<open>#ifndef NAME\<close> appends the opposite, \<^verbatim>\<open>#else\<close> negates the last entry, \<^verbatim>\<open>#endif\<close>
  removes it, and every other directive leaves the stack as it is. While \<^verbatim>\<open>define_ok\<close> is
  0 a pass writes nothing, and a directive changes no define.
\<close>

theorem C3_enabled_is_and_of_stack:
  assumes "pp_reaches inc name (pp_start P text) st"
  shows "pp_define_ok st = (if \<forall>v\<in>set (pp_stack st). v \<noteq> 0 then 1 else 0) \<and>
    (\<forall>st'. pp_rest st \<noteq> [] \<and> pp_step inc name st = Inr st' \<longrightarrow>
       (take 1 (pp_rest st) \<noteq> ''#'' \<longrightarrow> pp_stack st' = pp_stack st) \<and>
       (take 1 (pp_rest st) = ''#'' \<longrightarrow>
          (\<exists>buf n. read_token (drop 1 (pp_rest st)) 256 = Inr (buf, n) \<and>
             (buf = ''ifdef'' \<longrightarrow>
                (\<exists>nm m. read_name (drop n (drop 1 (pp_rest st))) 256 = Inr (nm, m) \<and>
                   pp_stack st' =
                     pp_stack st @ [if ifdef (defines_map (pp_session st)) nm then 1 else 0])) \<and>
             (buf = ''ifndef'' \<longrightarrow>
                (\<exists>nm m. read_name (drop n (drop 1 (pp_rest st))) 256 = Inr (nm, m) \<and>
                   pp_stack st' =
                     pp_stack st @ [if ifdef (defines_map (pp_session st)) nm then 0 else 1])) \<and>
             (buf = ''else'' \<longrightarrow> pp_stack st \<noteq> [] \<and>
                pp_stack st' =
                  butlast (pp_stack st) @ [if last (pp_stack st) = 0 then 1 else 0]) \<and>
             (buf = ''endif'' \<longrightarrow> pp_stack st \<noteq> [] \<and> pp_stack st' = butlast (pp_stack st)) \<and>
             (buf \<noteq> ''ifdef'' \<and> buf \<noteq> ''ifndef'' \<and> buf \<noteq> ''else'' \<and> buf \<noteq> ''endif'' \<longrightarrow>
                pp_stack st' = pp_stack st))) \<and>
       (pp_define_ok st = 0 \<longrightarrow>
          pp_out st' = pp_out st \<and>
          (take 1 (pp_rest st) = ''#'' \<longrightarrow>
             defines_map (pp_session st') = defines_map (pp_session st))))"
proof (rule conjI, goal_cases)
  case 1
  have "pp_define_ok (pp_start P text) = scan_stack (pp_stack (pp_start P text))"
    by (simp add: pp_start_def)
  from pp_reaches_inv [OF assms this] show ?case by (simp only: scan_stack_all)
next
  case 2
  show ?case
  proof (rule allI, rule impI, goal_cases)
    case (1 st')
    then have s: "pp_step inc name st = Inr st'" by (rule conjunct2)
    show ?case
      apply (rule conjI)
       apply (rule impI)
       apply (erule pp_step_stack_char [OF s])
      apply (rule conjI)
       apply (rule impI)
       apply (erule pp_step_stack_directive [OF s])
      apply (rule impI)
      apply (erule pp_step_disabled [OF s])
      done
  qed
qed

theorem C3_enabled_is_and_of_stack_witness:
  "pp_reaches no_includes ''a.idl'' (pp_start IdlParser_init (''#ifdef A'' @ [NL]))
     (pp_start IdlParser_init (''#ifdef A'' @ [NL])) \<and>
   pp_define_ok (pp_start IdlParser_init (''#ifdef A'' @ [NL])) = 1 \<and>
   pp_step no_includes ''a.idl'' (pp_start IdlParser_init (''#ifdef A'' @ [NL])) =
     Inr ex_pp_ifdef \<and>
   pp_reaches no_includes ''a.idl'' (pp_start IdlParser_init (''#ifdef A'' @ [NL])) ex_pp_ifdef \<and>
   pp_stack ex_pp_ifdef = [] @ [0] \<and> pp_define_ok ex_pp_ifdef = 0"
proof -
  define a where "a = pp_start IdlParser_init (''#ifdef A'' @ [NL])"
  have rest: "pp_rest a = ''#ifdef A'' @ [NL]" and st0: "pp_stack a = []"
    and sess: "pp_session a = IdlParser_init"
    by (simp_all add: a_def pp_start_def)
  have r0: "pp_reaches no_includes ''a.idl'' a a" by (rule pp_reaches.start)
  have ne: "pp_rest a \<noteq> []" by (simp add: rest)
  have hash: "take 1 (pp_rest a) = ''#''" by (simp add: rest)
  have s: "pp_step no_includes ''a.idl'' a = Inr ex_pp_ifdef"
    by (simp add: a_def pp_eval ex_pp_ifdef_def)
  have r1: "pp_reaches no_includes ''a.idl'' a ex_pp_ifdef"
    by (rule pp_reaches.step [OF r0 ne s])
  note at_start = C3_enabled_is_and_of_stack [OF r0 [unfolded a_def], folded a_def]
  from at_start have ok0: "pp_define_ok a = 1"
    by (simp add: st0)
  note after = at_start [THEN conjunct2, THEN spec, of ex_pp_ifdef, THEN mp,
      OF conjI [OF ne s], THEN conjunct2, THEN conjunct1, THEN mp, OF hash]
  from after have stk: "pp_stack ex_pp_ifdef = [] @ [0]"
    by (simp add: rest st0 sess pp_eval)
  from C3_enabled_is_and_of_stack [OF r1 [unfolded a_def]] stk
  have ok1: "pp_define_ok ex_pp_ifdef = 0" by simp
  from r0 ok0 s r1 stk ok1 show ?thesis unfolding a_def by simp
qed

subsection \<open>Macro substitution\<close>









subsection \<open>Unbalanced conditions\<close>

text \<open>
  C4. On the text \<^verbatim>\<open>#ifdef A\<close>, \<^verbatim>\<open>int x;\<close> the stack of conditions is not empty at the end
  of the input: \<^verbatim>\<open>preprocessor\<close> releases the buffer, prints, and returns normally with the
  pointer to the released buffer. On \<^verbatim>\<open>#else\<close> or \<^verbatim>\<open>#endif\<close> with an empty stack it releases
  the buffer, prints, and goes on to index or pop the empty vector. In neither case does
  the call stop with the failure of an assertion, as it does for a missing file.
\<close>

theorem C4_unbalanced_conditionals_are_not_fatal:
  "preprocessor_buf no_includes [] ''a.idl'' IdlParser_init
     (''#ifdef A'' @ [NL] @ ''int x;'' @ [NL]) =
   Inr (Released,
        IdlParser_init\<lparr>defines_map :=
          [(''__FILE__'', [DQ] @ ''a.idl:2'' @ [DQ]), (''__LINE__'', ''2'')]\<rparr>) \<and>
   preprocessor_buf no_includes [] ''a.idl'' IdlParser_init (''#else'' @ [NL]) =
     Inl OutOfRange \<and>
   preprocessor_buf no_includes [] ''a.idl'' IdlParser_init (''#endif'' @ [NL]) =
     Inl OutOfRange"
  by (simp add: pp_eval dec_digits)

end
